theory Spec2Isabelle
  imports Main "HOL-Library.Word"
begin

section \<open>Shared declarations of package gfs\<close>

text \<open>
  The repository's package \<^verbatim>\<open>gfs\<close> (types, constants and error codes) is not among
  the source files; what the chunk server, the master's server manager and the client
  use of it is declared here. Offsets, versions, handles and lengths are Go's
  \<^verbatim>\<open>int64\<close>/\<^verbatim>\<open>int\<close>; they are modelled as \<open>int\<close>. The model is the code as long
  as no sum or product leaves the 64-bit range, which takes offsets, lengths or
  versions near \<open>2 ^ 63\<close>; the properties below are about sums around the chunk size.
\<close>

type_synonym byte = "8 word"
type_synonym Offset = int
type_synonym ChunkVersion = int
type_synonym ChunkHandle = int
type_synonym ChunkIndex = int
type_synonym ServerAddress = string
type_synonym Path = string

text \<open>
  Modelled from the spec: the constants \<^verbatim>\<open>gfs.MaxChunkSize\<close> and
  \<^verbatim>\<open>gfs.MaxAppendSize\<close> (section 6, recognised configuration) are missing from the
  sources and are taken as parameters of every operation.
\<close>

record gfs_consts =
  MaxChunkSize :: int
  MaxAppendSize :: int

text \<open>
  Modelled from the spec: the closed enumeration of error kinds carried in replies
  (section 7). \<open>NoCode\<close> is the zero value a reply field keeps when the handler sets
  no code.
\<close>

datatype ErrorCode = NoCode | UnknownError | ReadEOF | AppendExceedChunkSize

datatype MutationType = MutationWrite | MutationAppend | MutationPad

text \<open>
  Modelled from the spec: a \<^verbatim>\<open>DataBufferID\<close> is a chunk handle with a nonce
  (section 3); the source reads its field \<^verbatim>\<open>Handle\<close>.
\<close>

record DataBufferID =
  Handle :: ChunkHandle
  TimeStamp :: int

text \<open>
  Every error value a function of the model returns. The source builds most of them
  with \<^verbatim>\<open>fmt.Errorf\<close>; one constructor stands for each message. \<open>RpcError\<close> is an
  error handed back by \<^verbatim>\<open>util.Call\<close> or \<^verbatim>\<open>util.CallAll\<close> (a transport failure, or
  the text of the remote handler's error); \<open>GfsError\<close> is a \<^verbatim>\<open>gfs.Error\<close> with its
  code; \<open>Panic\<close> is a Go run-time panic.
\<close>

datatype error =
    ErrDataNotFound          \<comment> \<open>DataID not found in download buffer\<close>
  | ErrDuplicateData         \<comment> \<open>Data already exists\<close>
  | ErrDataTooLarge          \<comment> \<open>Data is too large (push)\<close>
  | ErrWriteTooLarge         \<comment> \<open>writeChunk new length is too large\<close>
  | ErrAppendTooLarge        \<comment> \<open>Append data size exceeds max append size\<close>
  | ErrChunkNotFound         \<comment> \<open>Cannot find chunk\<close>
  | ErrDuplicatedVersion     \<comment> \<open>Duplicated mutation version\<close>
  | ErrDisk                  \<comment> \<open>an error of os.OpenFile or File.WriteAt\<close>
  | ErrNotEnoughServers      \<comment> \<open>no enough servers for replicas\<close>
  | ErrSamplePopulation      \<comment> \<open>population is not enough for sampling\<close>
  | ErrReadOffsetExceeds     \<comment> \<open>read offset exceeds file size\<close>
  | ErrWriteOffsetExceeds    \<comment> \<open>write offset exceeds file size\<close>
  | ErrClientWriteSize       \<comment> \<open>len(data)+offset > max chunk size\<close>
  | ErrClientAppendSize      \<comment> \<open>len(data) > max append size\<close>
  | ErrEOF                   \<comment> \<open>io.EOF\<close>
  | RpcError string
  | GfsError ErrorCode
  | Panic

section \<open>The chunk server\<close>

subsection \<open>State\<close>

record Mutation =
  mtype :: MutationType
  mversion :: ChunkVersion
  mdata :: "byte list"
  moffset :: Offset

text \<open>
  The mutation buffer is a Go map from version to mutation. Each of the three places
  that store into it stores a mutation under its own \<^verbatim>\<open>version\<close> field, so the buffer
  is modelled as the list of its mutations, looked up, replaced and deleted by that
  field; \<^verbatim>\<open>len(ck.mutations) == 0\<close> is the empty list.
\<close>

definition mutations_get :: "Mutation list \<Rightarrow> ChunkVersion \<Rightarrow> Mutation option" where
  "mutations_get ms v = find (\<lambda>m. mversion m = v) ms"

definition mutations_delete :: "Mutation list \<Rightarrow> ChunkVersion \<Rightarrow> Mutation list" where
  "mutations_delete ms v = filter (\<lambda>m. mversion m \<noteq> v) ms"

definition mutations_put :: "Mutation list \<Rightarrow> Mutation \<Rightarrow> Mutation list" where
  "mutations_put ms m = m # mutations_delete ms (mversion m)"

record chunkInfo =
  length_ck :: Offset
  version :: ChunkVersion
  newestVersion :: ChunkVersion
  mutations :: "Mutation list"

text \<open>
  The server: its download buffer, its chunks, the chunk files under
  \<^verbatim>\<open>serverRoot\<close> (one per handle, \<open>None\<close> when the file does not exist), the set of
  handles waiting for a lease extension, and the lines
  \<^verbatim>\<open>write to chunk h version v\<close> that \<^verbatim>\<open>writeChunk\<close> logs, in order.

  Modelled from the spec: the download buffer (\<^verbatim>\<open>downloadBuffer\<close> with \<^verbatim>\<open>New\<close>,
  \<^verbatim>\<open>Set\<close>, \<^verbatim>\<open>Get\<close>, \<^verbatim>\<open>Delete\<close>, section 4.2) is missing from the sources. It is a
  map from \<open>DataBufferID\<close> to bytes; the expiry of an entry is the step
  \<open>dl_Delete\<close> taken by the environment.
\<close>

type_synonym downloadBuffer = "DataBufferID \<rightharpoonup> byte list"

definition dl_New :: "ChunkHandle \<Rightarrow> int \<Rightarrow> DataBufferID" where
  "dl_New handle stamp = \<lparr>Handle = handle, TimeStamp = stamp\<rparr>"

definition dl_Set :: "downloadBuffer \<Rightarrow> DataBufferID \<Rightarrow> byte list \<Rightarrow> downloadBuffer" where
  "dl_Set b i d = b(i \<mapsto> d)"

definition dl_Get :: "downloadBuffer \<Rightarrow> DataBufferID \<Rightarrow> byte list option" where
  "dl_Get b i = b i"

definition dl_Delete :: "downloadBuffer \<Rightarrow> DataBufferID \<Rightarrow> downloadBuffer" where
  "dl_Delete b i = b(i := None)"

record ChunkServer =
  dl :: downloadBuffer
  chunk :: "ChunkHandle \<rightharpoonup> chunkInfo"
  files :: "ChunkHandle \<rightharpoonup> byte list"
  pendingLeaseExtensions :: "ChunkHandle set"
  writeLog :: "(ChunkHandle \<times> ChunkVersion) list"

definition newChunkServer :: ChunkServer where
  "newChunkServer = \<lparr>dl = Map.empty, chunk = Map.empty, files = Map.empty,
     pendingLeaseExtensions = {}, writeLog = []\<rparr>"

text \<open>
  What the disk does at one \<^verbatim>\<open>os.OpenFile\<close> followed by one \<^verbatim>\<open>WriteAt\<close>: both
  succeed, the open fails, or the write fails after some bytes (a write of no bytes
  makes no system call and cannot fail). A drain takes a list of them, one per write,
  and the disk works once the list is used up.
\<close>

datatype disk_outcome = DiskOk | OpenFails | WriteFails nat

definition next_outcome :: "disk_outcome list \<Rightarrow> disk_outcome" where
  "next_outcome ds = (case ds of [] \<Rightarrow> DiskOk | d # _ \<Rightarrow> d)"

text \<open>\<^verbatim>\<open>File.WriteAt\<close> at a non-negative offset: a gap is filled with zero bytes.\<close>

definition WriteAt :: "byte list \<Rightarrow> Offset \<Rightarrow> byte list \<Rightarrow> byte list" where
  "WriteAt old off b =
     (if b = [] then old
      else take (nat off) (old @ replicate (nat off - length old) 0) @ b
           @ drop (nat off + length b) old)"

text \<open>\<^verbatim>\<open>os.OpenFile(filename, O_WRONLY | O_CREATE)\<close>: the file exists afterwards.\<close>

definition open_create :: "(ChunkHandle \<rightharpoonup> byte list) \<Rightarrow> ChunkHandle \<Rightarrow> (ChunkHandle \<rightharpoonup> byte list)" where
  "open_create fs handle = (case fs handle of None \<Rightarrow> fs(handle \<mapsto> []) | Some _ \<Rightarrow> fs)"

subsection \<open>Helpers of the chunk server\<close>

definition nextVersion :: "chunkInfo \<Rightarrow> ChunkVersion \<times> chunkInfo" where
  "nextVersion ck = (newestVersion ck + 1, ck\<lparr>newestVersion := newestVersion ck + 1\<rparr>)"

definition deleteDownloadedData :: "ChunkServer \<Rightarrow> DataBufferID \<Rightarrow> (error + byte list) \<times> ChunkServer" where
  "deleteDownloadedData cs i =
     (case dl_Get (dl cs) i of
        None \<Rightarrow> (Inl ErrDataNotFound, cs)
      | Some d \<Rightarrow> (Inr d, cs\<lparr>dl := dl_Delete (dl cs) i\<rparr>))"

text \<open>
  The disk part of \<^verbatim>\<open>writeChunk\<close>: \<^verbatim>\<open>os.OpenFile\<close> of the chunk's file, then
  \<^verbatim>\<open>file.WriteAt(data, offset)\<close>, under the outcome \<open>d\<close>. It returns the error and
  the files afterwards. \<^verbatim>\<open>WriteAt\<close> refuses a negative offset; a write that fails
  has written fewer bytes than it was given.
\<close>

definition disk_write ::
  "disk_outcome \<Rightarrow> (ChunkHandle \<rightharpoonup> byte list) \<Rightarrow> ChunkHandle \<Rightarrow> byte list \<Rightarrow> Offset
     \<Rightarrow> error option \<times> (ChunkHandle \<rightharpoonup> byte list)" where
  "disk_write d fs handle dat off =
     (case d of
        OpenFails \<Rightarrow> (Some ErrDisk, fs)
      | _ \<Rightarrow>
          let fs1 = open_create fs handle;
              old = (case fs1 handle of None \<Rightarrow> [] | Some f \<Rightarrow> f)
          in if off < 0 then (Some ErrDisk, fs1)
             else (case d of
                     WriteFails n \<Rightarrow>
                       if dat = [] then (None, fs1)
                       else (Some ErrDisk,
                             fs1(handle \<mapsto> WriteAt old off (take (min n (length dat - 1)) dat)))
                   | _ \<Rightarrow> (None, fs1(handle \<mapsto> WriteAt old off dat))))"

text \<open>
  \<^verbatim>\<open>writeChunk\<close> first updates the length and the version in memory and logs the
  write, then opens the file and writes. \<^verbatim>\<open>cs.chunk[handle]\<close> of a missing handle is
  a nil pointer, whose first use panics.
\<close>

definition writeChunk ::
  "disk_outcome \<Rightarrow> ChunkServer \<Rightarrow> ChunkHandle \<Rightarrow> ChunkVersion \<Rightarrow> byte list \<Rightarrow> Offset \<Rightarrow> bool
     \<Rightarrow> error option \<times> ChunkServer" where
  "writeChunk d cs handle ver dat off lock =
     (case chunk cs handle of
        None \<Rightarrow> (Some Panic, cs)
      | Some ck \<Rightarrow>
          let newLen = off + int (length dat);
              ck1 = (if newLen > length_ck ck then ck\<lparr>length_ck := newLen\<rparr> else ck);
              ck2 = ck1\<lparr>version := ver\<rparr>;
              cs1 = cs\<lparr>chunk := (chunk cs)(handle \<mapsto> ck2),
                       writeLog := writeLog cs @ [(handle, ver)]\<rparr>;
              (err, fs) = disk_write d (files cs1) handle dat off
          in (err, cs1\<lparr>files := fs\<rparr>))"

text \<open>\<^verbatim>\<open>delete(ck.mutations, v)\<close> on the chunk of a handle.\<close>

definition delete_mutation :: "ChunkServer \<Rightarrow> ChunkHandle \<Rightarrow> ChunkVersion \<Rightarrow> ChunkServer" where
  "delete_mutation cs handle v =
     (case chunk cs handle of
        None \<Rightarrow> cs
      | Some ck \<Rightarrow> cs\<lparr>chunk := (chunk cs)(handle \<mapsto> ck\<lparr>mutations := mutations_delete (mutations ck) v\<rparr>)\<rparr>)"

definition buffered :: "ChunkServer \<Rightarrow> ChunkHandle \<Rightarrow> nat" where
  "buffered cs handle = (case chunk cs handle of None \<Rightarrow> 0 | Some ck \<Rightarrow> length (mutations ck))"

text \<open>One turn of the loop of \<^verbatim>\<open>doMutation\<close>: the write of the mutation \<open>v\<close> found at
  \<open>version + 1\<close>, and its removal from the buffer.\<close>

definition apply_mutation ::
  "gfs_consts \<Rightarrow> disk_outcome \<Rightarrow> ChunkServer \<Rightarrow> ChunkHandle \<Rightarrow> Mutation \<Rightarrow> error option \<times> ChunkServer" where
  "apply_mutation c d cs handle v =
     (let lock = (mtype v = MutationAppend);
          (err, cs1) =
            (if mtype v = MutationPad
             then writeChunk d cs handle (mversion v) [0] (MaxChunkSize c - 1) lock
             else writeChunk d cs handle (mversion v) (mdata v) (moffset v) lock)
      in (err, delete_mutation cs1 handle (mversion v)))"

lemma mutations_get_Some:
  "mutations_get ms v = Some m \<Longrightarrow> m \<in> set ms \<and> mversion m = v"
  by (auto simp: mutations_get_def find_Some_iff)

lemma mutations_get_None:
  "mutations_get ms v = None \<longleftrightarrow> v \<notin> mversion ` set ms"
  by (auto simp: mutations_get_def find_None_iff)


lemma length_mutations_delete:
  "m \<in> set ms \<Longrightarrow> mversion m = v \<Longrightarrow> length (mutations_delete ms v) < length ms"
  unfolding mutations_delete_def
  by (induction ms) (auto simp: less_Suc_eq_le)

lemma writeChunk_mutations:
  "writeChunk d cs handle ver dat off lock = (r, cs') \<Longrightarrow> chunk cs handle = Some ck \<Longrightarrow>
     \<exists>ck'. chunk cs' handle = Some ck' \<and> mutations ck' = mutations ck"
  by (auto simp: writeChunk_def disk_write_def split_beta Let_def split: disk_outcome.splits if_splits)

lemma apply_mutation_buffered:
  assumes "apply_mutation c d cs handle v = (r, cs')" and "chunk cs handle = Some ck"
    and "mutations_get (mutations ck) (version ck + 1) = Some v"
  shows "buffered cs' handle < buffered cs handle"
proof -
  obtain e cs1 dat off where w: "writeChunk d cs handle (mversion v) dat off (mtype v = MutationAppend) = (e, cs1)"
    and cs': "cs' = delete_mutation cs1 handle (mversion v)"
    using assms(1) by (auto simp: apply_mutation_def Let_def split: if_splits prod.splits)
  obtain ck1 where ck1: "chunk cs1 handle = Some ck1" "mutations ck1 = mutations ck"
    using writeChunk_mutations [OF w assms(2)] by blast
  have "v \<in> set (mutations ck)"
    using mutations_get_Some [OF assms(3)] by simp
  then have "length (mutations_delete (mutations ck) (mversion v)) < length (mutations ck)"
    by (rule length_mutations_delete) simp
  then show ?thesis
    using ck1 assms(2) by (simp add: cs' buffered_def delete_mutation_def)
qed

text \<open>
  The loop of \<^verbatim>\<open>doMutation\<close>: while the buffer holds the mutation of
  \<open>version + 1\<close>, write it and delete it; a failed write returns its error after the
  deletion. Every turn shortens the buffer.
\<close>

function doMutation_loop ::
  "gfs_consts \<Rightarrow> disk_outcome list \<Rightarrow> ChunkServer \<Rightarrow> ChunkHandle \<Rightarrow> error option \<times> ChunkServer" where
  "doMutation_loop c ds cs handle =
     (case chunk cs handle of
        None \<Rightarrow> (Some Panic, cs)
      | Some ck \<Rightarrow>
          (case mutations_get (mutations ck) (version ck + 1) of
             None \<Rightarrow> (None, cs)
           | Some v \<Rightarrow>
               (case apply_mutation c (next_outcome ds) cs handle v of
                  (Some e, cs1) \<Rightarrow> (Some e, cs1)
                | (None, cs1) \<Rightarrow> doMutation_loop c (tl ds) cs1 handle)))"
  by pat_completeness auto
termination
  by (relation "measure (\<lambda>(c, ds, cs, handle). buffered cs handle)")
     (auto dest: apply_mutation_buffered [OF sym])

declare doMutation_loop.simps [simp del]

definition doMutation ::
  "gfs_consts \<Rightarrow> disk_outcome list \<Rightarrow> ChunkServer \<Rightarrow> ChunkHandle \<Rightarrow> error option \<times> ChunkServer" where
  "doMutation c ds cs handle =
     (case doMutation_loop c ds cs handle of
        (Some e, cs1) \<Rightarrow> (Some e, cs1)
      | (None, cs1) \<Rightarrow>
          (case chunk cs1 handle of
             None \<Rightarrow> (Some Panic, cs1)
           | Some ck \<Rightarrow>
               if mutations ck = []
               then (None, cs1\<lparr>chunk := (chunk cs1)(handle \<mapsto> ck\<lparr>newestVersion := version ck\<rparr>)\<rparr>)
               else (None, cs1)))"

subsection \<open>The RPC handlers of the chunk server\<close>

text \<open>
  A handler takes the server's state and returns its error (or its reply) with the new
  state: what it did to the state before an error stays done. The fan-out
  \<^verbatim>\<open>util.CallAll\<close> to other servers is a parameter \<open>callAll\<close>, which receives the
  destinations and the arguments and answers with the error text, if any. The
  arguments of \<^verbatim>\<open>RPCApplyMutation\<close> are passed one by one: kind, version, DataID,
  offset.
\<close>

type_synonym callAllForward = "ServerAddress list \<Rightarrow> DataBufferID \<Rightarrow> byte list \<Rightarrow> string option"
type_synonym callAllApply =
  "ServerAddress list \<Rightarrow> MutationType \<Rightarrow> ChunkVersion \<Rightarrow> DataBufferID \<Rightarrow> Offset \<Rightarrow> string option"

record AppendChunkReply =
  Offset :: Offset
  ErrorCode :: ErrorCode

definition RPCPushDataAndForward ::
  "gfs_consts \<Rightarrow> callAllForward \<Rightarrow> int \<Rightarrow> ChunkServer \<Rightarrow> ChunkHandle \<Rightarrow> byte list \<Rightarrow> ServerAddress list
     \<Rightarrow> (error + DataBufferID) \<times> ChunkServer" where
  "RPCPushDataAndForward c callAll stamp cs handle dat forwardTo =
     (if int (length dat) > MaxChunkSize c then (Inl ErrDataTooLarge, cs)
      else
        let i = dl_New handle stamp;
            cs1 = cs\<lparr>dl := dl_Set (dl cs) i dat\<rparr>
        in (case callAll forwardTo i dat of
              Some msg \<Rightarrow> (Inl (RpcError msg), cs1)
            | None \<Rightarrow> (Inr i, cs1)))"

definition RPCForwardData :: "ChunkServer \<Rightarrow> DataBufferID \<Rightarrow> byte list \<Rightarrow> error option \<times> ChunkServer" where
  "RPCForwardData cs dataID dat =
     (case dl_Get (dl cs) dataID of
        Some _ \<Rightarrow> (Some ErrDuplicateData, cs)
      | None \<Rightarrow> (None, cs\<lparr>dl := dl_Set (dl cs) dataID dat\<rparr>))"

definition RPCCreateChunk :: "disk_outcome \<Rightarrow> ChunkServer \<Rightarrow> ChunkHandle \<Rightarrow> error option \<times> ChunkServer" where
  "RPCCreateChunk d cs handle =
     (case chunk cs handle of
        Some _ \<Rightarrow> (None, cs)
      | None \<Rightarrow>
          let cs1 = cs\<lparr>chunk := (chunk cs)(handle \<mapsto>
                        \<lparr>length_ck = 0, version = 0, newestVersion = 0, mutations = []\<rparr>)\<rparr>
          in (case d of
                OpenFails \<Rightarrow> (Some ErrDisk, cs1)
              | _ \<Rightarrow> (None, cs1\<lparr>files := open_create (files cs1) handle\<rparr>)))"

text \<open>
  \<^verbatim>\<open>RPCWriteChunk\<close> up to \<^verbatim>\<open>ck.Unlock()\<close>: the staged data is consumed, the size is
  checked, and under the chunk's lock the length is raised, the next version is
  allocated and the mutation is buffered. (The return on a duplicated version leaves
  the lock held; locks are not part of the state.)
\<close>

definition RPCWriteChunk_assign ::
  "gfs_consts \<Rightarrow> ChunkServer \<Rightarrow> DataBufferID \<Rightarrow> Offset \<Rightarrow> (error + ChunkVersion) \<times> ChunkServer" where
  "RPCWriteChunk_assign c cs dataID off =
     (case deleteDownloadedData cs dataID of
        (Inl e, cs0) \<Rightarrow> (Inl e, cs0)
      | (Inr dat, cs0) \<Rightarrow>
          let newLen = off + int (length dat) in
          if newLen > MaxChunkSize c then (Inl ErrWriteTooLarge, cs0)
          else
            (case chunk cs0 (Handle dataID) of
               None \<Rightarrow> (Inl ErrChunkNotFound, cs0)
             | Some ck \<Rightarrow>
                 let ck1 = (if newLen > length_ck ck then ck\<lparr>length_ck := newLen\<rparr> else ck);
                     (ver, ck2) = nextVersion ck1
                 in if mutations_get (mutations ck2) ver \<noteq> None
                    then (Inl ErrDuplicatedVersion, cs0\<lparr>chunk := (chunk cs0)(Handle dataID \<mapsto> ck2)\<rparr>)
                    else (Inr ver,
                          cs0\<lparr>chunk := (chunk cs0)(Handle dataID \<mapsto>
                                 ck2\<lparr>mutations := mutations_put (mutations ck2)
                                        \<lparr>mtype = MutationWrite, mversion = ver, mdata = dat, moffset = off\<rparr>\<rparr>)\<rparr>)))"

definition RPCWriteChunk ::
  "gfs_consts \<Rightarrow> disk_outcome list \<Rightarrow> callAllApply \<Rightarrow> ChunkServer \<Rightarrow> DataBufferID \<Rightarrow> Offset \<Rightarrow> ServerAddress list
     \<Rightarrow> error option \<times> ChunkServer" where
  "RPCWriteChunk c ds callAll cs dataID off secondaries =
     (case RPCWriteChunk_assign c cs dataID off of
        (Inl e, cs1) \<Rightarrow> (Some e, cs1)
      | (Inr ver, cs1) \<Rightarrow>
          (case doMutation c ds cs1 (Handle dataID) of
             (Some e, cs2) \<Rightarrow> (Some e, cs2)
           | (None, cs2) \<Rightarrow>
               (case callAll secondaries MutationWrite ver dataID off of
                  Some msg \<Rightarrow> (Some (RpcError msg), cs2)
                | None \<Rightarrow>
                    (None, cs2\<lparr>pendingLeaseExtensions :=
                                 insert (Handle dataID) (pendingLeaseExtensions cs2)\<rparr>))))"

text \<open>
  \<^verbatim>\<open>RPCAppendChunk\<close> up to \<^verbatim>\<open>ck.Unlock()\<close>. It returns the kind it elected, the
  version it allocated and the reply fields it has set.
\<close>

definition RPCAppendChunk_assign ::
  "gfs_consts \<Rightarrow> ChunkServer \<Rightarrow> DataBufferID
     \<Rightarrow> (error + MutationType \<times> ChunkVersion \<times> AppendChunkReply) \<times> ChunkServer" where
  "RPCAppendChunk_assign c cs dataID =
     (case deleteDownloadedData cs dataID of
        (Inl e, cs0) \<Rightarrow> (Inl e, cs0)
      | (Inr dat, cs0) \<Rightarrow>
          if int (length dat) > MaxAppendSize c then (Inl ErrAppendTooLarge, cs0)
          else
            (case chunk cs0 (Handle dataID) of
               None \<Rightarrow> (Inl ErrChunkNotFound, cs0)
             | Some ck \<Rightarrow>
                 let newLen = length_ck ck + int (length dat);
                     off = length_ck ck;
                     (mt, ck1, code) =
                       (if newLen > MaxChunkSize c
                        then (MutationPad, ck\<lparr>length_ck := MaxChunkSize c\<rparr>, AppendExceedChunkSize)
                        else (MutationAppend, ck\<lparr>length_ck := newLen\<rparr>, NoCode));
                     reply = \<lparr>Offset = off, ErrorCode = code\<rparr>;
                     (ver, ck2) = nextVersion ck1
                 in if mutations_get (mutations ck2) ver \<noteq> None
                    then (Inl ErrDuplicatedVersion, cs0\<lparr>chunk := (chunk cs0)(Handle dataID \<mapsto> ck2)\<rparr>)
                    else (Inr (mt, ver, reply),
                          cs0\<lparr>chunk := (chunk cs0)(Handle dataID \<mapsto>
                                 ck2\<lparr>mutations := mutations_put (mutations ck2)
                                        \<lparr>mtype = mt, mversion = ver, mdata = dat, moffset = off\<rparr>\<rparr>)\<rparr>)))"

definition RPCAppendChunk ::
  "gfs_consts \<Rightarrow> disk_outcome list \<Rightarrow> callAllApply \<Rightarrow> ChunkServer \<Rightarrow> DataBufferID \<Rightarrow> ServerAddress list
     \<Rightarrow> (error + AppendChunkReply) \<times> ChunkServer" where
  "RPCAppendChunk c ds callAll cs dataID secondaries =
     (case RPCAppendChunk_assign c cs dataID of
        (Inl e, cs1) \<Rightarrow> (Inl e, cs1)
      | (Inr (mt, ver, reply), cs1) \<Rightarrow>
          (case doMutation c ds cs1 (Handle dataID) of
             (Some e, cs2) \<Rightarrow> (Inl e, cs2)
           | (None, cs2) \<Rightarrow>
               (case callAll secondaries mt ver dataID (Offset reply) of
                  Some msg \<Rightarrow> (Inl (RpcError msg), cs2)
                | None \<Rightarrow>
                    (Inr reply, cs2\<lparr>pendingLeaseExtensions :=
                                     insert (Handle dataID) (pendingLeaseExtensions cs2)\<rparr>))))"

text \<open>\<^verbatim>\<open>RPCApplyMutation\<close> up to \<^verbatim>\<open>ck.Unlock()\<close>: the secondary buffers the mutation
  under the version the primary sent.\<close>

definition RPCApplyMutation_buffer ::
  "ChunkServer \<Rightarrow> MutationType \<Rightarrow> ChunkVersion \<Rightarrow> DataBufferID \<Rightarrow> Offset \<Rightarrow> error option \<times> ChunkServer" where
  "RPCApplyMutation_buffer cs mt ver dataID off =
     (case deleteDownloadedData cs dataID of
        (Inl e, cs0) \<Rightarrow> (Some e, cs0)
      | (Inr dat, cs0) \<Rightarrow>
          (case chunk cs0 (Handle dataID) of
             None \<Rightarrow> (Some ErrChunkNotFound, cs0)
           | Some ck \<Rightarrow>
               if mutations_get (mutations ck) ver \<noteq> None then (Some ErrDuplicatedVersion, cs0)
               else (None,
                     cs0\<lparr>chunk := (chunk cs0)(Handle dataID \<mapsto>
                            ck\<lparr>mutations := mutations_put (mutations ck)
                                   \<lparr>mtype = mt, mversion = ver, mdata = dat, moffset = off\<rparr>\<rparr>)\<rparr>)))"

definition RPCApplyMutation ::
  "gfs_consts \<Rightarrow> disk_outcome list \<Rightarrow> ChunkServer \<Rightarrow> MutationType \<Rightarrow> ChunkVersion \<Rightarrow> DataBufferID \<Rightarrow> Offset
     \<Rightarrow> error option \<times> ChunkServer" where
  "RPCApplyMutation c ds cs mt ver dataID off =
     (case RPCApplyMutation_buffer cs mt ver dataID off of
        (Some e, cs1) \<Rightarrow> (Some e, cs1)
      | (None, cs1) \<Rightarrow> doMutation c ds cs1 (Handle dataID))"

definition RPCApplyCopy ::
  "disk_outcome \<Rightarrow> ChunkServer \<Rightarrow> ChunkHandle \<Rightarrow> byte list \<Rightarrow> ChunkVersion \<Rightarrow> error option \<times> ChunkServer" where
  "RPCApplyCopy d cs handle dat ver =
     (case chunk cs handle of
        None \<Rightarrow> (Some ErrChunkNotFound, cs)
      | Some ck \<Rightarrow>
          writeChunk d (cs\<lparr>chunk := (chunk cs)(handle \<mapsto> ck\<lparr>mutations := []\<rparr>)\<rparr>) handle ver dat 0 True)"

subsection \<open>Runs of a chunk server\<close>

text \<open>
  The steps a chunk server takes: each RPC handler as a whole, the expiry of a
  download-buffer entry, and, because handlers run concurrently and release the chunk's
  lock between their parts, the locked parts on their own (\<open>_assign\<close>, \<open>_buffer\<close>)
  and the drain. A run applies a list of steps to a state.
\<close>

datatype op =
    OpCreateChunk disk_outcome ChunkHandle
  | OpPushDataAndForward callAllForward int ChunkHandle "byte list" "ServerAddress list"
  | OpForwardData DataBufferID "byte list"
  | OpExpire DataBufferID
  | OpWriteChunk "disk_outcome list" callAllApply DataBufferID Offset "ServerAddress list"
  | OpAppendChunk "disk_outcome list" callAllApply DataBufferID "ServerAddress list"
  | OpApplyMutation "disk_outcome list" MutationType ChunkVersion DataBufferID Offset
  | OpApplyCopy disk_outcome ChunkHandle "byte list" ChunkVersion
  | OpWriteChunk_assign DataBufferID Offset
  | OpAppendChunk_assign DataBufferID
  | OpApplyMutation_buffer MutationType ChunkVersion DataBufferID Offset
  | OpDoMutation "disk_outcome list" ChunkHandle

fun step :: "gfs_consts \<Rightarrow> ChunkServer \<Rightarrow> op \<Rightarrow> ChunkServer" where
  "step c cs (OpCreateChunk d handle) = snd (RPCCreateChunk d cs handle)"
| "step c cs (OpPushDataAndForward callAll stamp handle dat forwardTo) =
     snd (RPCPushDataAndForward c callAll stamp cs handle dat forwardTo)"
| "step c cs (OpForwardData dataID dat) = snd (RPCForwardData cs dataID dat)"
| "step c cs (OpExpire dataID) = cs\<lparr>dl := dl_Delete (dl cs) dataID\<rparr>"
| "step c cs (OpWriteChunk ds callAll dataID off secondaries) =
     snd (RPCWriteChunk c ds callAll cs dataID off secondaries)"
| "step c cs (OpAppendChunk ds callAll dataID secondaries) =
     snd (RPCAppendChunk c ds callAll cs dataID secondaries)"
| "step c cs (OpApplyMutation ds mt ver dataID off) =
     snd (RPCApplyMutation c ds cs mt ver dataID off)"
| "step c cs (OpApplyCopy d handle dat ver) = snd (RPCApplyCopy d cs handle dat ver)"
| "step c cs (OpWriteChunk_assign dataID off) = snd (RPCWriteChunk_assign c cs dataID off)"
| "step c cs (OpAppendChunk_assign dataID) = snd (RPCAppendChunk_assign c cs dataID)"
| "step c cs (OpApplyMutation_buffer mt ver dataID off) =
     snd (RPCApplyMutation_buffer cs mt ver dataID off)"
| "step c cs (OpDoMutation ds handle) = snd (doMutation c ds cs handle)"

definition run :: "gfs_consts \<Rightarrow> ChunkServer \<Rightarrow> op list \<Rightarrow> ChunkServer" where
  "run c cs ops = foldl (step c) cs ops"

text \<open>
  The steps a replica takes as a secondary of the chunk \<open>h\<close>: \<^verbatim>\<open>RPCApplyMutation\<close>
  for a mutation of this chunk (as a whole, or its buffering part) and the
  re-replication sink \<^verbatim>\<open>RPCApplyCopy\<close> for this chunk.
\<close>

fun secondary_on :: "ChunkHandle \<Rightarrow> op \<Rightarrow> bool" where
  "secondary_on h (OpApplyMutation ds mt ver dataID off) = (Handle dataID = h)"
| "secondary_on h (OpApplyMutation_buffer mt ver dataID off) = (Handle dataID = h)"
| "secondary_on h (OpApplyCopy d handle dat ver) = (handle = h)"
| "secondary_on h _ = False"

text \<open>The invariant of a chunk that the specification states.\<close>

definition version_invariant :: "chunkInfo \<Rightarrow> bool" where
  "version_invariant ck \<longleftrightarrow>
     version ck \<le> newestVersion ck \<and> (mutations ck = [] \<longleftrightarrow> version ck = newestVersion ck)"

subsection \<open>Notions used to state the properties of a drain\<close>

text \<open>The error of one write: the disk fails, or \<^verbatim>\<open>WriteAt\<close> refuses a negative
  offset.\<close>

definition write_error :: "disk_outcome \<Rightarrow> Offset \<Rightarrow> byte list \<Rightarrow> error option" where
  "write_error d off dat =
     (case d of
        DiskOk \<Rightarrow> if off < 0 then Some ErrDisk else None
      | OpenFails \<Rightarrow> Some ErrDisk
      | WriteFails n \<Rightarrow> if off < 0 \<or> dat \<noteq> [] then Some ErrDisk else None)"

text \<open>The offset and the bytes that a drain writes for the mutation \<open>v\<close>, and whether
  that write fails.\<close>

definition write_offset :: "gfs_consts \<Rightarrow> Mutation \<Rightarrow> Offset" where
  "write_offset c v = (if mtype v = MutationPad then MaxChunkSize c - 1 else moffset v)"

definition write_data :: "Mutation \<Rightarrow> byte list" where
  "write_data v = (if mtype v = MutationPad then [0] else mdata v)"


text \<open>
  A list of mutations whose versions are \<open>v + 1, v + 2, \<dots>\<close>: each is the version
  of the one before plus one, and the first is \<open>v + 1\<close>.
\<close>

fun ascending_from :: "ChunkVersion \<Rightarrow> Mutation list \<Rightarrow> bool" where
  "ascending_from v [] = True"
| "ascending_from v (m # ms) = (mversion m = v + 1 \<and> ascending_from (v + 1) ms)"

text \<open>
  The files after the writes of the mutations \<open>ms\<close> to the file of \<open>handle\<close>, one
  after the other in the order of the list, the first under the first outcome of
  \<open>ds\<close>, the second under the second, and so on.
\<close>

fun disk_writes ::
  "gfs_consts \<Rightarrow> disk_outcome list \<Rightarrow> ChunkHandle \<Rightarrow> Mutation list
     \<Rightarrow> (ChunkHandle \<rightharpoonup> byte list) \<Rightarrow> (ChunkHandle \<rightharpoonup> byte list)" where
  "disk_writes c ds handle [] fs = fs"
| "disk_writes c ds handle (m # ms) fs =
     disk_writes c (tl ds) handle ms
       (snd (disk_write (next_outcome ds) fs handle (write_data m) (write_offset c m)))"

text \<open>The error of the first of these writes that fails, if one does.\<close>

fun first_failure :: "gfs_consts \<Rightarrow> disk_outcome list \<Rightarrow> Mutation list \<Rightarrow> error option" where
  "first_failure c ds [] = None"
| "first_failure c ds (m # ms) =
     (case write_error (next_outcome ds) (write_offset c m) (write_data m) of
        Some e \<Rightarrow> Some e
      | None \<Rightarrow> first_failure c (tl ds) ms)"

text \<open>The chunk after the mutation \<open>v\<close> was written and deleted from the buffer.\<close>

definition applied :: "gfs_consts \<Rightarrow> chunkInfo \<Rightarrow> Mutation \<Rightarrow> chunkInfo" where
  "applied c ck v =
     ck\<lparr>length_ck := max (length_ck ck)
                      (if mtype v = MutationPad then MaxChunkSize c
                       else moffset v + int (length (mdata v))),
        version := mversion v,
        mutations := mutations_delete (mutations ck) (mversion v)\<rparr>"

text \<open>What a drain that starts at the chunk \<open>ck\<close> has done to the state \<open>s\<close> after
  \<open>k\<close> writes.\<close>

definition drained ::
  "ChunkServer \<Rightarrow> ChunkHandle \<Rightarrow> chunkInfo \<Rightarrow> nat \<Rightarrow> ChunkServer \<Rightarrow> chunkInfo \<Rightarrow> bool" where
  "drained cs handle ck k s ck' \<longleftrightarrow>
     chunk s handle = Some ck'
     \<and> writeLog s = writeLog cs @ map (\<lambda>i. (handle, version ck + 1 + int i)) [0..<k]
     \<and> version ck' = version ck + int k
     \<and> mutations ck' = filter (\<lambda>m. \<not> (version ck < mversion m \<and> mversion m \<le> version ck + int k))
                            (mutations ck)
     \<and> newestVersion ck' = newestVersion ck
     \<and> length_ck ck \<le> length_ck ck'
     \<and> list_all (\<lambda>i. mutations_get (mutations ck) (version ck + 1 + int i) \<noteq> None) [0..<k]"

text \<open>
  The invariant that the primary's path keeps on a chunk: the buffer holds exactly the
  versions allocated and not yet written.
\<close>

definition primary_invariant :: "chunkInfo \<Rightarrow> bool" where
  "primary_invariant ck \<longleftrightarrow>
     version ck \<le> newestVersion ck
     \<and> mversion ` set (mutations ck) = {version ck <.. newestVersion ck}"

text \<open>The chunk \<open>h\<close> of a server, if the server has it, satisfies this invariant.\<close>

definition chunk_invariant :: "ChunkHandle \<Rightarrow> ChunkServer \<Rightarrow> bool" where
  "chunk_invariant h cs \<longleftrightarrow> (case chunk cs h of None \<Rightarrow> True | Some ck \<Rightarrow> primary_invariant ck)"

text \<open>The kind \<^verbatim>\<open>RPCAppendChunk\<close> elects for data \<open>dat\<close> on the chunk \<open>ck\<close>.\<close>

definition elected_kind :: "gfs_consts \<Rightarrow> chunkInfo \<Rightarrow> byte list \<Rightarrow> MutationType" where
  "elected_kind c ck dat =
     (if length_ck ck + int (length dat) > MaxChunkSize c then MutationPad else MutationAppend)"

section \<open>The master's chunk server manager\<close>

text \<open>
  \<^verbatim>\<open>ChooseServers\<close> collects the keys of the server map in the order the \<^verbatim>\<open>range\<close>
  loop yields them, which Go leaves open, and indexes them with the first \<open>num\<close>
  entries of \<^verbatim>\<open>rand.Perm(len(all))\<close>. Both are parameters: \<open>keys\<close> is the order of the
  loop and \<open>perm\<close> the permutation drawn. A slice bound or an index out of range is a
  panic.
\<close>

record chunkServerInfo =
  lastHeartbeat :: int
  chunks :: "ChunkHandle set"

record chunkServerManager =
  servers :: "ServerAddress \<rightharpoonup> chunkServerInfo"

definition Sample :: "int list \<Rightarrow> int \<Rightarrow> int \<Rightarrow> error + int list" where
  "Sample perm n k =
     (if n < k then Inl ErrSamplePopulation
      else if n < 0 \<or> k < 0 then Inl Panic
      else Inr (take (nat k) perm))"

definition ChooseServers ::
  "ServerAddress list \<Rightarrow> int list \<Rightarrow> chunkServerManager \<Rightarrow> int \<Rightarrow> error + ServerAddress list" where
  "ChooseServers keys perm csm num =
     (if num > int (card (dom (servers csm))) then Inl ErrNotEnoughServers
      else
        let all = keys in
        (case Sample perm (int (length all)) num of
           Inl e \<Rightarrow> Inl e
         | Inr chosen \<Rightarrow>
             if list_all (\<lambda>v. 0 \<le> v \<and> v < int (length all)) chosen
             then Inr (map (\<lambda>v. all ! nat v) chosen)
             else Inl Panic))"

section \<open>The client\<close>

text \<open>Go's integer division truncates towards zero; the remainder has the sign of the
  dividend.\<close>

definition quot :: "int \<Rightarrow> int \<Rightarrow> int" where
  "quot a b = sgn a * sgn b * (\<bar>a\<bar> div \<bar>b\<bar>)"

definition rem :: "int \<Rightarrow> int \<Rightarrow> int" where
  "rem a b = a - b * quot a b"

text \<open>
  The client reaches the master and the chunk servers through \<^verbatim>\<open>util.Call\<close>. What
  the other side answers is a parameter \<open>net\<close>: for every kind of call, the answer to
  the call's arguments when it is the \<open>t\<close>-th call the client makes (the text of the
  error, or the reply), so that an answer may change from one attempt to the next.
  \<open>randInt\<close> is \<^verbatim>\<open>rand.Int()\<close>. Every client function takes the number of calls made so
  far and returns it with its result.
\<close>

record net =
  callGetFileInfo :: "nat \<Rightarrow> Path \<Rightarrow> string + int"
  callGetChunkHandle :: "nat \<Rightarrow> Path \<Rightarrow> ChunkIndex \<Rightarrow> string + ChunkHandle"
  callGetReplicas :: "nat \<Rightarrow> ChunkHandle \<Rightarrow> string + ServerAddress list"
  callGetPrimaryAndSecondaries :: "nat \<Rightarrow> ChunkHandle \<Rightarrow> string + ServerAddress \<times> ServerAddress list"
  callPushDataAndForward ::
    "nat \<Rightarrow> ServerAddress \<Rightarrow> ChunkHandle \<Rightarrow> byte list \<Rightarrow> ServerAddress list \<Rightarrow> string + DataBufferID"
  callReadChunk :: "nat \<Rightarrow> ServerAddress \<Rightarrow> ChunkHandle \<Rightarrow> Offset \<Rightarrow> int \<Rightarrow> string + int \<times> ErrorCode"
  callWriteChunk :: "nat \<Rightarrow> ServerAddress \<Rightarrow> DataBufferID \<Rightarrow> Offset \<Rightarrow> ServerAddress list \<Rightarrow> string option"
  callAppendChunk :: "nat \<Rightarrow> ServerAddress \<Rightarrow> DataBufferID \<Rightarrow> ServerAddress list \<Rightarrow> string + AppendChunkReply"
  randInt :: "nat \<Rightarrow> nat"

text \<open>A call of a Go function returns its results or panics.\<close>

datatype 'a go = Panics | Returns 'a

definition GetChunkHandle :: "net \<Rightarrow> nat \<Rightarrow> Path \<Rightarrow> ChunkIndex \<Rightarrow> (error + ChunkHandle) \<times> nat" where
  "GetChunkHandle net t path index =
     (case callGetChunkHandle net t path index of
        Inl msg \<Rightarrow> (Inl (RpcError msg), t + 1)
      | Inr h \<Rightarrow> (Inr h, t + 1))"

text \<open>
  \<^verbatim>\<open>ReadChunk\<close> returns the length of the reply and the error. The bytes of the reply,
  which are decoded into the caller's slice, are not part of the model. An empty list
  of replicas makes \<^verbatim>\<open>rand.Int() % len(l.Locations)\<close> divide by zero.
\<close>

definition ReadChunk ::
  "gfs_consts \<Rightarrow> net \<Rightarrow> nat \<Rightarrow> ChunkHandle \<Rightarrow> Offset \<Rightarrow> byte list \<Rightarrow> (int \<times> error option) go \<times> nat" where
  "ReadChunk c net t handle off dat =
     (let readLen = (if MaxChunkSize c - off > int (length dat) then int (length dat)
                     else MaxChunkSize c - off)
      in case callGetReplicas net t handle of
           Inl msg \<Rightarrow> (Returns (0, Some (GfsError UnknownError)), t + 1)
         | Inr locations \<Rightarrow>
             if locations = [] then (Panics, t + 1)
             else
               let loc = locations ! (randInt net t mod length locations) in
               (case callReadChunk net (t + 1) loc handle off readLen of
                  Inl msg \<Rightarrow> (Returns (0, Some (GfsError UnknownError)), t + 2)
                | Inr (len, code) \<Rightarrow>
                    if code = ReadEOF then (Returns (len, Some (GfsError ReadEOF)), t + 2)
                    else (Returns (len, None), t + 2)))"

definition WriteChunk ::
  "gfs_consts \<Rightarrow> net \<Rightarrow> nat \<Rightarrow> ChunkHandle \<Rightarrow> Offset \<Rightarrow> byte list \<Rightarrow> error option \<times> nat" where
  "WriteChunk c net t handle off dat =
     (if int (length dat) + off > MaxChunkSize c then (Some ErrClientWriteSize, t)
      else
        (case callGetPrimaryAndSecondaries net t handle of
           Inl msg \<Rightarrow> (Some (RpcError msg), t + 1)
         | Inr (primary, secondaries) \<Rightarrow>
             (case callPushDataAndForward net (t + 1) primary handle dat secondaries of
                Inl msg \<Rightarrow> (Some (RpcError msg), t + 2)
              | Inr dataID \<Rightarrow>
                  (case callWriteChunk net (t + 2) primary dataID off secondaries of
                     Some msg \<Rightarrow> (Some (RpcError msg), t + 3)
                   | None \<Rightarrow> (None, t + 3)))))"


text \<open>
  The loops of the client retry without bound, so they are partial functions: \<open>None\<close>
  is a loop that never ends. A type assertion \<^verbatim>\<open>err.(gfs.Error)\<close> on another kind of
  error panics. \<open>Read_retry\<close>, \<open>Write_retry\<close> and \<open>Append_retry\<close> are the inner loops, on
  one chunk; \<open>Read_loop\<close>, \<open>Write_loop\<close> and \<open>Append_loop\<close> the outer ones, from chunk to
  chunk.
\<close>

partial_function (option) Read_retry ::
  "gfs_consts \<Rightarrow> net \<Rightarrow> nat \<Rightarrow> ChunkHandle \<Rightarrow> Offset \<Rightarrow> byte list \<Rightarrow> ((int \<times> error option) go \<times> nat) option" where
  "Read_retry c net t handle off dat =
     (case ReadChunk c net t handle off dat of
        (Panics, t') \<Rightarrow> Some (Panics, t')
      | (Returns (n, None), t') \<Rightarrow> Some (Returns (n, None), t')
      | (Returns (n, Some (GfsError code)), t') \<Rightarrow>
          if code = ReadEOF then Some (Returns (n, Some (GfsError code)), t')
          else Read_retry c net t' handle off dat
      | (Returns (n, Some _), t') \<Rightarrow> Some (Panics, t'))"


definition Read_result :: "int \<Rightarrow> error option \<Rightarrow> (int \<times> error option) go" where
  "Read_result pos err =
     (case err of
        None \<Rightarrow> Returns (pos, None)
      | Some (GfsError code) \<Rightarrow>
          if code = ReadEOF then Returns (pos, Some ErrEOF) else Returns (pos, err)
      | Some _ \<Rightarrow> Panics)"

partial_function (option) Read_loop ::
  "gfs_consts \<Rightarrow> net \<Rightarrow> nat \<Rightarrow> Path \<Rightarrow> Offset \<Rightarrow> byte list \<Rightarrow> int \<Rightarrow> ((int \<times> error option) go \<times> nat) option" where
  "Read_loop c net t path off dat pos =
     (let index = quot off (MaxChunkSize c);
          chunkOffset = rem off (MaxChunkSize c)
      in case GetChunkHandle net t path index of
           (Inl e, t1) \<Rightarrow> Some (Returns (0, Some e), t1)
         | (Inr handle, t1) \<Rightarrow>
             if pos < 0 \<or> pos > int (length dat) then Some (Panics, t1)
             else
               (case Read_retry c net t1 handle chunkOffset (drop (nat pos) dat) of
                  None \<Rightarrow> None
                | Some (Panics, t2) \<Rightarrow> Some (Panics, t2)
                | Some (Returns (n, err), t2) \<Rightarrow>
                    if err \<noteq> None then Some (Read_result (pos + n) err, t2)
                    else if pos + n = int (length dat) then Some (Read_result (pos + n) err, t2)
                    else Read_loop c net t2 path (off + n) dat (pos + n)))"

definition Read ::
  "gfs_consts \<Rightarrow> net \<Rightarrow> nat \<Rightarrow> Path \<Rightarrow> Offset \<Rightarrow> byte list \<Rightarrow> ((int \<times> error option) go \<times> nat) option" where
  "Read c net t path off dat =
     (case callGetFileInfo net t path of
        Inl msg \<Rightarrow> Some (Returns (- 1, Some (RpcError msg)), t + 1)
      | Inr fChunks \<Rightarrow>
          if quot off (MaxChunkSize c) > fChunks
          then Some (Returns (- 1, Some ErrReadOffsetExceeds), t + 1)
          else Read_loop c net (t + 1) path off dat 0)"

partial_function (option) Write_retry ::
  "gfs_consts \<Rightarrow> net \<Rightarrow> nat \<Rightarrow> ChunkHandle \<Rightarrow> Offset \<Rightarrow> byte list \<Rightarrow> nat option" where
  "Write_retry c net t handle off dat =
     (case WriteChunk c net t handle off dat of
        (None, t') \<Rightarrow> Some t'
      | (Some e, t') \<Rightarrow> Write_retry c net t' handle off dat)"

partial_function (option) Write_loop ::
  "gfs_consts \<Rightarrow> net \<Rightarrow> nat \<Rightarrow> Path \<Rightarrow> Offset \<Rightarrow> byte list \<Rightarrow> int \<Rightarrow> (error option go \<times> nat) option" where
  "Write_loop c net t path off dat begin =
     (let index = quot off (MaxChunkSize c);
          chunkOffset = rem off (MaxChunkSize c)
      in case GetChunkHandle net t path index of
           (Inl e, t1) \<Rightarrow> Some (Returns (Some e), t1)
         | (Inr handle, t1) \<Rightarrow>
             let writeMax = MaxChunkSize c - chunkOffset;
                 writeLen = (if begin + writeMax > int (length dat) then int (length dat) - begin
                             else writeMax)
             in if begin < 0 \<or> writeLen < 0 \<or> begin + writeLen > int (length dat)
                then Some (Panics, t1)
                else
                  (case Write_retry c net t1 handle chunkOffset
                          (take (nat writeLen) (drop (nat begin) dat)) of
                     None \<Rightarrow> None
                   | Some t2 \<Rightarrow>
                       if begin + writeLen = int (length dat) then Some (Returns None, t2)
                       else Write_loop c net t2 path (off + writeLen) dat (begin + writeLen)))"

definition Write ::
  "gfs_consts \<Rightarrow> net \<Rightarrow> nat \<Rightarrow> Path \<Rightarrow> Offset \<Rightarrow> byte list \<Rightarrow> (error option go \<times> nat) option" where
  "Write c net t path off dat =
     (case callGetFileInfo net t path of
        Inl msg \<Rightarrow> Some (Returns (Some (RpcError msg)), t + 1)
      | Inr fChunks \<Rightarrow>
          if quot off (MaxChunkSize c) > fChunks
          then Some (Returns (Some ErrWriteOffsetExceeds), t + 1)
          else Write_loop c net (t + 1) path off dat 0)"




subsection \<open>The append as the specification words it\<close>



subsection \<open>The append as the client performs it\<close>



section \<open>Example states\<close>

text \<open>The constants of the specification's end-to-end scenarios, and small states
  on which the theorems below are evaluated.\<close>

definition ex_consts :: gfs_consts where
  "ex_consts = \<lparr>MaxChunkSize = 64, MaxAppendSize = 16\<rparr>"

definition ex_id :: DataBufferID where
  "ex_id = \<lparr>Handle = 1, TimeStamp = 7\<rparr>"

definition no_callAll :: callAllApply where
  "no_callAll = (\<lambda>dst mt ver i off. None)"

definition ex_staged :: ChunkServer where
  "ex_staged = snd (RPCForwardData newChunkServer ex_id [1, 2, 3])"

definition ex_csm :: chunkServerManager where
  "ex_csm = \<lparr>servers = [''a'' \<mapsto> \<lparr>lastHeartbeat = 0, chunks = {}\<rparr>,
                         ''b'' \<mapsto> \<lparr>lastHeartbeat = 0, chunks = {}\<rparr>,
                         ''c'' \<mapsto> \<lparr>lastHeartbeat = 0, chunks = {}\<rparr>]\<rparr>"

definition ex_net :: net where
  "ex_net = \<lparr>callGetFileInfo = (\<lambda>t p. Inr 1),
     callGetChunkHandle = (\<lambda>t p i. if i = 1 then Inl ''no servers'' else Inr i),
     callGetReplicas = (\<lambda>t h. Inl ''down''),
     callGetPrimaryAndSecondaries = (\<lambda>t h. Inl ''down''),
     callPushDataAndForward = (\<lambda>t a h d s. Inl ''down''),
     callReadChunk = (\<lambda>t a h off n. Inl ''down''),
     callWriteChunk = (\<lambda>t a i off s. Some ''down''),
     callAppendChunk = (\<lambda>t a i s. Inl ''down''),
     randInt = (\<lambda>t. 0)\<rparr>"

definition ex_id2 :: DataBufferID where
  "ex_id2 = \<lparr>Handle = 1, TimeStamp = 8\<rparr>"

definition ex_buffered :: ChunkServer where
  "ex_buffered = run ex_consts newChunkServer
     [OpCreateChunk DiskOk 1,
      OpForwardData ex_id [4, 5],
      OpApplyMutation_buffer MutationWrite 2 ex_id 3,
      OpForwardData ex_id2 [1, 2, 3],
      OpApplyMutation_buffer MutationWrite 1 ex_id2 0]"

definition ex_m1 :: Mutation where
  "ex_m1 = \<lparr>mtype = MutationWrite, mversion = 1, mdata = [1, 2, 3], moffset = 0\<rparr>"

definition ex_m2 :: Mutation where
  "ex_m2 = \<lparr>mtype = MutationWrite, mversion = 2, mdata = [4, 5], moffset = 3\<rparr>"

definition ex_single :: ChunkServer where
  "ex_single = run ex_consts newChunkServer
     [OpCreateChunk DiskOk 1,
      OpForwardData ex_id [1, 2, 3],
      OpApplyMutation_buffer MutationWrite 1 ex_id 0]"

definition ex_no_forward :: callAllForward where
  "ex_no_forward = (\<lambda>dst i dat. None)"

definition ex_id3 :: DataBufferID where
  "ex_id3 = \<lparr>Handle = 2, TimeStamp = 9\<rparr>"

text \<open>A replica that is primary for the chunk 1 and secondary for the chunk 2, where
  it receives the mutation of version 2 first.\<close>

definition ex_mixed_ops :: "op list" where
  "ex_mixed_ops =
     [OpCreateChunk DiskOk 1,
      OpCreateChunk DiskOk 2,
      OpPushDataAndForward ex_no_forward 7 1 [1, 2, 3] [],
      OpWriteChunk_assign ex_id 0,
      OpForwardData ex_id3 [9],
      OpApplyMutation [] MutationWrite 2 ex_id3 0,
      OpPushDataAndForward ex_no_forward 8 1 [4, 5] [],
      OpAppendChunk_assign ex_id2]"

definition ex_late :: Mutation where
  "ex_late = \<lparr>mtype = MutationWrite, mversion = 2, mdata = [1, 2, 3], moffset = 0\<rparr>"

definition ex_full :: ChunkServer where
  "ex_full = run ex_consts newChunkServer
     [OpCreateChunk DiskOk 1,
      OpPushDataAndForward ex_no_forward 7 1 (replicate 50 120) [],
      OpWriteChunk [] no_callAll ex_id 0 [],
      OpPushDataAndForward ex_no_forward 8 1 (replicate 16 65) []]"

definition ex_net_ok :: net where
  "ex_net_ok = \<lparr>callGetFileInfo = (\<lambda>t p. Inr 1),
     callGetChunkHandle = (\<lambda>t p i. Inr (i + 1)),
     callGetReplicas = (\<lambda>t h. Inr [''a'', ''b'', ''c'']),
     callGetPrimaryAndSecondaries = (\<lambda>t h. Inr (''a'', [''b'', ''c''])),
     callPushDataAndForward = (\<lambda>t a h d s. Inr \<lparr>Handle = h, TimeStamp = int t\<rparr>),
     callReadChunk = (\<lambda>t a h off n. Inr (n, NoCode)),
     callWriteChunk = (\<lambda>t a i off s. None),
     callAppendChunk = (\<lambda>t a i s. if Handle i = 1 then Inr \<lparr>Offset = 50, ErrorCode = AppendExceedChunkSize\<rparr>
                                     else Inr \<lparr>Offset = 0, ErrorCode = NoCode\<rparr>),
     randInt = (\<lambda>t. 0)\<rparr>"


definition ex_created_staged :: "byte list \<Rightarrow> ChunkServer" where
  "ex_created_staged dat = run ex_consts newChunkServer [OpCreateChunk DiskOk 1, OpForwardData ex_id dat]"

section \<open>Properties of the chunk server\<close>

subsection \<open>The drain loop and the download buffer\<close>

lemma doMutation_loop_invariant:
  assumes "P cs"
    and step: "\<And>s ck v d. P s \<Longrightarrow> chunk s handle = Some ck \<Longrightarrow>
                 mutations_get (mutations ck) (version ck + 1) = Some v \<Longrightarrow>
                 P (snd (apply_mutation c d s handle v))"
  shows "P (snd (doMutation_loop c ds cs handle))"
  using assms
proof (induction c ds cs handle rule: doMutation_loop.induct)
  case (1 c ds cs handle)
  show ?case
  proof (cases "chunk cs handle")
    case None
    then show ?thesis using "1.prems"(1) by (simp add: doMutation_loop.simps)
  next
    case ck: (Some ck)
    show ?thesis
    proof (cases "mutations_get (mutations ck) (version ck + 1)")
      case None
      with ck show ?thesis using "1.prems"(1) by (simp add: doMutation_loop.simps)
    next
      case v: (Some v)
      obtain r cs1 where a: "apply_mutation c (next_outcome ds) cs handle v = (r, cs1)"
        by (cases "apply_mutation c (next_outcome ds) cs handle v")
      have p1: "P cs1"
        using "1.prems"(2) [OF "1.prems"(1) ck v, of "next_outcome ds"] a by simp
      show ?thesis
      proof (cases r)
        case None
        then show ?thesis
          using "1.IH" [OF ck v a [symmetric] None p1 "1.prems"(2)] ck v a
          by (simp add: doMutation_loop.simps [of c ds cs handle])
      next
        case (Some e)
        then show ?thesis using ck v a p1
          by (simp add: doMutation_loop.simps [of c ds cs handle])
      qed
    qed
  qed
qed

lemma writeChunk_dl: "dl (snd (writeChunk d cs handle ver dat off lock)) = dl cs"
  by (simp add: writeChunk_def disk_write_def split_beta Let_def split: option.splits disk_outcome.splits)

lemma delete_mutation_dl: "dl (delete_mutation cs handle v) = dl cs"
  by (simp add: delete_mutation_def split: option.splits)

lemma apply_mutation_dl: "dl (snd (apply_mutation c d cs handle v)) = dl cs"
  by (simp add: apply_mutation_def Let_def split_beta delete_mutation_dl writeChunk_dl)

lemma doMutation_loop_dl: "dl (snd (doMutation_loop c ds cs handle)) = dl cs"
  by (rule doMutation_loop_invariant [where P = "\<lambda>s. dl s = dl cs"]) (simp_all add: apply_mutation_dl)

lemma doMutation_dl: "dl (snd (doMutation c ds cs handle)) = dl cs"
  using doMutation_loop_dl [of c ds cs handle]
  by (cases "doMutation_loop c ds cs handle")
     (auto simp: doMutation_def split: option.splits)

lemma deleteDownloadedData_dl:
  "dl (snd (deleteDownloadedData cs i)) = dl_Delete (dl cs) i"
  by (auto simp: deleteDownloadedData_def dl_Get_def dl_Delete_def split: option.splits)

lemma RPCWriteChunk_assign_dl:
  "dl (snd (RPCWriteChunk_assign c cs i off)) = dl_Delete (dl cs) i"
  by (auto simp: RPCWriteChunk_assign_def deleteDownloadedData_def dl_Get_def dl_Delete_def nextVersion_def Let_def
      split: option.splits prod.splits sum.splits)

lemma RPCAppendChunk_assign_dl:
  "dl (snd (RPCAppendChunk_assign c cs i)) = dl_Delete (dl cs) i"
  by (auto simp: RPCAppendChunk_assign_def deleteDownloadedData_def dl_Get_def dl_Delete_def nextVersion_def Let_def
      split: option.splits prod.splits sum.splits)

lemma RPCApplyMutation_buffer_dl:
  "dl (snd (RPCApplyMutation_buffer cs mt ver i off)) = dl_Delete (dl cs) i"
  by (auto simp: RPCApplyMutation_buffer_def deleteDownloadedData_def dl_Get_def dl_Delete_def Let_def
      split: option.splits prod.splits sum.splits)

lemma RPCWriteChunk_dl:
  "dl (snd (RPCWriteChunk c ds ca cs i off secs)) = dl_Delete (dl cs) i"
  using RPCWriteChunk_assign_dl [of c cs i off]
  by (cases "RPCWriteChunk_assign c cs i off")
     (auto simp: RPCWriteChunk_def split: sum.splits prod.splits option.splits
           dest: arg_cong [where f = "\<lambda>p. dl (snd p)"] simp: doMutation_dl)


lemma RPCAppendChunk_dl:
  "dl (snd (RPCAppendChunk c ds ca cs i secs)) = dl_Delete (dl cs) i"
  using RPCAppendChunk_assign_dl [of c cs i]
  by (cases "RPCAppendChunk_assign c cs i")
     (auto simp: RPCAppendChunk_def split: sum.splits prod.splits option.splits
           dest: arg_cong [where f = "\<lambda>p. dl (snd p)"] simp: doMutation_dl)

lemma RPCApplyMutation_dl:
  "dl (snd (RPCApplyMutation c ds cs mt ver i off)) = dl_Delete (dl cs) i"
  using RPCApplyMutation_buffer_dl [of cs mt ver i off]
  by (cases "RPCApplyMutation_buffer cs mt ver i off")
     (auto simp: RPCApplyMutation_def doMutation_dl split: option.splits)

subsection \<open>What a drain does\<close>

lemma writeChunk_chunk:
  assumes "chunk cs handle = Some ck"
  shows "chunk (snd (writeChunk d cs handle ver dat off lock))
           = (chunk cs)(handle \<mapsto> ck\<lparr>length_ck := max (length_ck ck) (off + int (length dat)), version := ver\<rparr>)"
    and "writeLog (snd (writeChunk d cs handle ver dat off lock)) = writeLog cs @ [(handle, ver)]"
    and "fst (writeChunk d cs handle ver dat off lock) = write_error d off dat"
    and "pendingLeaseExtensions (snd (writeChunk d cs handle ver dat off lock)) = pendingLeaseExtensions cs"
  using assms
  by (auto simp: writeChunk_def disk_write_def split_beta Let_def write_error_def max_def split: disk_outcome.splits)

lemma apply_mutation_chunk:
  assumes "chunk cs handle = Some ck"
  shows "chunk (snd (apply_mutation c d cs handle v)) = (chunk cs)(handle \<mapsto> applied c ck v)"
    and "writeLog (snd (apply_mutation c d cs handle v)) = writeLog cs @ [(handle, mversion v)]"
    and "fst (apply_mutation c d cs handle v)
           = write_error d (write_offset c v) (write_data v)"
    and "pendingLeaseExtensions (snd (apply_mutation c d cs handle v)) = pendingLeaseExtensions cs"
  using writeChunk_chunk [OF assms, of d "mversion v" "[0]" "MaxChunkSize c - 1" "mtype v = MutationAppend"]
    writeChunk_chunk [OF assms, of d "mversion v" "mdata v" "moffset v" "mtype v = MutationAppend"]
  by (auto simp: apply_mutation_def Let_def split_beta delete_mutation_def applied_def
      write_offset_def write_data_def)

lemma doMutation_loop_stops:
  assumes "chunk cs handle = Some ck"
  shows "\<exists>ck'. chunk (snd (doMutation_loop c ds cs handle)) handle = Some ck'
           \<and> (fst (doMutation_loop c ds cs handle) = None
                \<longrightarrow> mutations_get (mutations ck') (version ck' + 1) = None)
           \<and> (fst (doMutation_loop c ds cs handle) \<noteq> None
                \<longrightarrow> fst (doMutation_loop c ds cs handle) = Some ErrDisk)"
  using assms
proof (induction c ds cs handle arbitrary: ck rule: doMutation_loop.induct)
  case (1 c ds cs handle)
  note ck = "1.prems"
  show ?case
  proof (cases "mutations_get (mutations ck) (version ck + 1)")
    case None
    with ck show ?thesis by (simp add: doMutation_loop.simps [of c ds cs handle])
  next
    case v: (Some v)
    obtain r cs1 where a: "apply_mutation c (next_outcome ds) cs handle v = (r, cs1)"
      by (cases "apply_mutation c (next_outcome ds) cs handle v")
    have c1: "chunk cs1 handle = Some (applied c ck v)"
      using apply_mutation_chunk(1) [OF ck, of c "next_outcome ds" v] a by simp
    show ?thesis
    proof (cases r)
      case None
      show ?thesis
        using "1.IH" [OF ck v a [symmetric] None c1] ck v a None
        by (simp add: doMutation_loop.simps [of c ds cs handle])
    next
      case (Some e)
      have "e = ErrDisk"
        using apply_mutation_chunk(3) [OF ck, of c "next_outcome ds" v] a Some
        by (simp add: write_error_def split: if_splits disk_outcome.splits)
      then show ?thesis using ck v a Some c1
        by (simp add: doMutation_loop.simps [of c ds cs handle])
    qed
  qed
qed


lemma drained_start:
  "chunk cs handle = Some ck \<Longrightarrow> drained cs handle ck 0 cs ck"
  by (simp add: drained_def)

lemma drained_step:
  assumes d: "drained cs handle ck k s ck'"
    and v: "mutations_get (mutations ck') (version ck' + 1) = Some v"
  shows "drained cs handle ck (Suc k) (snd (apply_mutation c d s handle v)) (applied c ck' v)"
proof -
  have s: "chunk s handle = Some ck'" using d by (simp add: drained_def)
  have mv: "mversion v = version ck + 1 + int k" and vin: "v \<in> set (mutations ck')"
    using mutations_get_Some [OF v] d by (simp_all add: drained_def)
  have "v \<in> set (mutations ck)"
    using vin d by (simp add: drained_def)
  then have "version ck + 1 + int k \<in> mversion ` set (mutations ck)"
    using mv by (metis imageI)
  then have got: "mutations_get (mutations ck) (version ck + 1 + int k) \<noteq> None"
    by (simp add: mutations_get_None)
  have "mutations_delete (mutations ck') (mversion v)
          = filter (\<lambda>m. \<not> (version ck < mversion m \<and> mversion m \<le> version ck + int (Suc k)))
                            (mutations ck)"
    using d mv by (auto simp: drained_def mutations_delete_def intro: filter_cong)
  moreover have "length_ck ck \<le> length_ck (applied c ck' v)"
    using d by (simp add: drained_def applied_def max_def)
  ultimately show ?thesis
    using d mv got apply_mutation_chunk(1,2) [OF s, of c d v]
    by (simp add: drained_def) (simp add: applied_def)
qed

lemma doMutation_loop_drained:
  assumes "chunk cs handle = Some ck"
  shows "\<exists>k ck'. drained cs handle ck k (snd (doMutation_loop c ds cs handle)) ck'"
proof (rule doMutation_loop_invariant [where P = "\<lambda>s. \<exists>k ck'. drained cs handle ck k s ck'"])
  show "\<exists>k ck'. drained cs handle ck k cs ck'"
    using drained_start [OF assms] by blast
next
  fix s ck2 v d
  assume "\<exists>k ck'. drained cs handle ck k s ck'" and s: "chunk s handle = Some ck2"
    and v: "mutations_get (mutations ck2) (version ck2 + 1) = Some v"
  then obtain k ck' where d: "drained cs handle ck k s ck'" by blast
  then have "ck' = ck2" using s by (simp add: drained_def)
  with d v show "\<exists>k ck'. drained cs handle ck k (snd (apply_mutation c d s handle v)) ck'"
    using drained_step by blast
qed

lemma doMutation_drained:
  assumes ck: "chunk cs handle = Some ck"
  shows "\<exists>k ck'. drained cs handle ck k (snd (doMutation_loop c ds cs handle)) ck'
           \<and> writeLog (snd (doMutation c ds cs handle)) = writeLog (snd (doMutation_loop c ds cs handle))
           \<and> fst (doMutation c ds cs handle) = fst (doMutation_loop c ds cs handle)
           \<and> (fst (doMutation c ds cs handle) \<noteq> None \<longrightarrow>
                 fst (doMutation c ds cs handle) = Some ErrDisk
                 \<and> snd (doMutation c ds cs handle) = snd (doMutation_loop c ds cs handle))
           \<and> (fst (doMutation c ds cs handle) = None \<longrightarrow>
                 mutations_get (mutations ck') (version ck' + 1) = None
                 \<and> chunk (snd (doMutation c ds cs handle)) handle
                     = Some (if mutations ck' = [] then ck'\<lparr>newestVersion := version ck'\<rparr> else ck'))"
proof -
  obtain k ck' where d: "drained cs handle ck k (snd (doMutation_loop c ds cs handle)) ck'"
    using doMutation_loop_drained [OF ck] by blast
  then have c': "chunk (snd (doMutation_loop c ds cs handle)) handle = Some ck'"
    by (simp add: drained_def)
  obtain r s where l: "doMutation_loop c ds cs handle = (r, s)"
    by (cases "doMutation_loop c ds cs handle")
  have "(r = None \<longrightarrow> mutations_get (mutations ck') (version ck' + 1) = None)
      \<and> (r \<noteq> None \<longrightarrow> r = Some ErrDisk)"
    using doMutation_loop_stops [OF ck, of c ds] c' l by simp
  then show ?thesis
    using d c' l by (auto simp: doMutation_def intro!: exI [of _ k] exI [of _ ck'])
qed

subsection \<open>What a drain writes to the disk\<close>

lemma disk_write_error: "fst (disk_write d fs handle dat off) = write_error d off dat"
  by (simp add: disk_write_def write_error_def Let_def split: disk_outcome.splits)

lemma writeChunk_files:
  assumes "chunk cs handle = Some ck"
  shows "files (snd (writeChunk d cs handle ver dat off lock))
           = snd (disk_write d (files cs) handle dat off)"
  using assms by (simp add: writeChunk_def Let_def split_beta)

lemma apply_mutation_files:
  assumes "chunk cs handle = Some ck"
  shows "files (snd (apply_mutation c d cs handle v))
           = snd (disk_write d (files cs) handle (write_data v) (write_offset c v))"
  using writeChunk_files [OF assms]
  by (simp add: apply_mutation_def Let_def split_beta delete_mutation_def
      write_offset_def write_data_def split: option.splits)

lemma mutations_get_delete:
  "mutations_get (mutations_delete ms v) w = (if w = v then None else mutations_get ms w)"
  unfolding mutations_get_def mutations_delete_def
  by (induction ms) (auto simp: find_None_iff)

lemma doMutation_loop_writes:
  assumes "chunk cs handle = Some ck"
  shows "\<exists>ms. ascending_from (version ck) ms
           \<and> list_all (\<lambda>m. mutations_get (mutations ck) (mversion m) = Some m) ms
           \<and> files (snd (doMutation_loop c ds cs handle)) = disk_writes c ds handle ms (files cs)
           \<and> writeLog (snd (doMutation_loop c ds cs handle))
               = writeLog cs @ map (\<lambda>m. (handle, mversion m)) ms
           \<and> first_failure c ds (butlast ms) = None
           \<and> fst (doMutation_loop c ds cs handle) = first_failure c ds ms"
  using assms
proof (induction c ds cs handle arbitrary: ck rule: doMutation_loop.induct)
  case (1 c ds cs handle)
  note ck = "1.prems"
  show ?case
  proof (cases "mutations_get (mutations ck) (version ck + 1)")
    case None
    with ck show ?thesis
      by (intro exI [of _ "[]"]) (simp add: doMutation_loop.simps [of c ds cs handle])
  next
    case v: (Some v)
    obtain r cs1 where a: "apply_mutation c (next_outcome ds) cs handle v = (r, cs1)"
      by (cases "apply_mutation c (next_outcome ds) cs handle v")
    have c1: "chunk cs1 handle = Some (applied c ck v)"
      and l1: "writeLog cs1 = writeLog cs @ [(handle, mversion v)]"
      and r: "r = write_error (next_outcome ds) (write_offset c v) (write_data v)"
      using apply_mutation_chunk(1,2,3) [OF ck, of c "next_outcome ds" v] a by simp_all
    have f1: "files cs1 = snd (disk_write (next_outcome ds) (files cs) handle (write_data v) (write_offset c v))"
      using apply_mutation_files [OF ck, of c "next_outcome ds" v] a by simp
    have mv: "mversion v = version ck + 1" and got: "mutations_get (mutations ck) (mversion v) = Some v"
      using mutations_get_Some [OF v] v by simp_all
    show ?thesis
    proof (cases r)
      case (Some e)
      then have "doMutation_loop c ds cs handle = (Some e, cs1)"
        using ck v a by (simp add: doMutation_loop.simps [of c ds cs handle])
      moreover have "write_error (next_outcome ds) (write_offset c v) (write_data v) = Some e"
        using r Some by simp
      ultimately show ?thesis
        using mv got f1 l1 by (intro exI [of _ "[v]"]) simp
    next
      case None
      then have l: "doMutation_loop c ds cs handle = doMutation_loop c (tl ds) cs1 handle"
        using ck v a by (simp add: doMutation_loop.simps [of c ds cs handle])
      from "1.IH" [OF ck v a [symmetric] None c1]
      obtain ms where asc: "ascending_from (version (applied c ck v)) ms"
        and buf: "list_all (\<lambda>m. mutations_get (mutations (applied c ck v)) (mversion m) = Some m) ms"
        and fs: "files (snd (doMutation_loop c (tl ds) cs1 handle)) = disk_writes c (tl ds) handle ms (files cs1)"
        and wl: "writeLog (snd (doMutation_loop c (tl ds) cs1 handle))
               = writeLog cs1 @ map (\<lambda>m. (handle, mversion m)) ms"
        and bl: "first_failure c (tl ds) (butlast ms) = None"
        and ff: "fst (doMutation_loop c (tl ds) cs1 handle) = first_failure c (tl ds) ms"
        by (elim exE conjE)
      have "list_all (\<lambda>m. mutations_get (mutations ck) (mversion m) = Some m) ms"
        using buf by (auto simp: list_all_iff applied_def mutations_get_delete split: if_splits)
      moreover have "ascending_from (version ck) (v # ms)"
        using asc mv by (simp add: applied_def)
      moreover have "first_failure c ds (butlast (v # ms)) = None"
        using bl r None by simp
      moreover have "first_failure c ds (v # ms) = first_failure c (tl ds) ms"
        using r None by simp
      ultimately show ?thesis
        using l fs wl ff f1 l1 got
        by (intro exI [of _ "v # ms"]) simp
    qed
  qed
qed

lemma doMutation_files:
  "files (snd (doMutation c ds cs handle)) = files (snd (doMutation_loop c ds cs handle))"
  by (cases "doMutation_loop c ds cs handle")
     (auto simp: doMutation_def split: option.splits)

subsection \<open>The example states, evaluated\<close>

lemma ex_buffered_eq:
  "ex_buffered = \<lparr>dl = Map.empty,
      chunk = [1 \<mapsto> \<lparr>length_ck = 0, version = 0, newestVersion = 0, mutations = [ex_m1, ex_m2]\<rparr>],
      files = [1 \<mapsto> []], pendingLeaseExtensions = {}, writeLog = []\<rparr>"
  by (simp add: ex_buffered_def run_def newChunkServer_def RPCCreateChunk_def open_create_def
      RPCForwardData_def dl_Get_def dl_Set_def dl_Delete_def ex_id_def ex_id2_def
      RPCApplyMutation_buffer_def deleteDownloadedData_def mutations_get_def mutations_put_def
      mutations_delete_def ex_m1_def ex_m2_def fun_upd_twist)

lemma ex_drain:
  "doMutation ex_consts [] ex_buffered 1
     = (None, \<lparr>dl = Map.empty,
      chunk = [1 \<mapsto> \<lparr>length_ck = 5, version = 2, newestVersion = 2, mutations = []\<rparr>],
      files = [1 \<mapsto> [1, 2, 3, 4, 5]], pendingLeaseExtensions = {}, writeLog = [(1, 1), (1, 2)]\<rparr>)"
  by (simp add: ex_buffered_eq doMutation_def doMutation_loop.simps apply_mutation_def
      writeChunk_def disk_write_def split_beta delete_mutation_def next_outcome_def open_create_def WriteAt_def
      mutations_get_def mutations_delete_def ex_m1_def ex_m2_def ex_consts_def)

lemma ex_single_eq:
  "ex_single = \<lparr>dl = Map.empty,
      chunk = [1 \<mapsto> \<lparr>length_ck = 0, version = 0, newestVersion = 0, mutations = [ex_m1]\<rparr>],
      files = [1 \<mapsto> []], pendingLeaseExtensions = {}, writeLog = []\<rparr>"
  by (simp add: ex_single_def run_def newChunkServer_def RPCCreateChunk_def open_create_def
      RPCForwardData_def dl_Get_def dl_Set_def dl_Delete_def ex_id_def
      RPCApplyMutation_buffer_def deleteDownloadedData_def mutations_get_def mutations_put_def
      mutations_delete_def ex_m1_def)

subsection \<open>The invariant of the primary's path\<close>

lemma primary_invariant_version_invariant:
  assumes "primary_invariant ck"
  shows "version_invariant ck"
proof -
  have "mutations ck = [] \<longleftrightarrow> mversion ` set (mutations ck) = {}" by simp
  also have "\<dots> \<longleftrightarrow> {version ck <.. newestVersion ck} = {}"
    using assms by (simp add: primary_invariant_def)
  also have "\<dots> \<longleftrightarrow> version ck = newestVersion ck"
    using assms by (auto simp: primary_invariant_def)
  finally show ?thesis
    using assms by (simp add: version_invariant_def primary_invariant_def)
qed

lemma primary_invariant_fresh:
  "primary_invariant ck \<Longrightarrow> mutations_get (mutations ck) (newestVersion ck + 1) = None"
  by (auto simp: primary_invariant_def mutations_get_None)

lemma primary_invariant_put:
  assumes "primary_invariant ck"
  shows "primary_invariant (ck\<lparr>length_ck := l, newestVersion := newestVersion ck + 1,
            mutations := mutations_put (mutations ck) \<lparr>mtype = mt, mversion = newestVersion ck + 1, mdata = dat, moffset = off\<rparr>\<rparr>)"
proof -
  have "mversion m \<le> newestVersion ck" if "m \<in> set (mutations ck)" for m
  proof -
    have "mversion m \<in> {version ck <.. newestVersion ck}"
      using that assms unfolding primary_invariant_def by blast
    then show ?thesis by simp
  qed
  then have "mutations_delete (mutations ck) (newestVersion ck + 1) = mutations ck"
    by (fastforce simp: mutations_delete_def filter_id_conv)
  then show ?thesis
    using assms by (auto simp: primary_invariant_def mutations_put_def)
qed

lemma chunk_invariant_update:
  "chunk_invariant h cs \<Longrightarrow> (h = handle \<Longrightarrow> primary_invariant ck)
     \<Longrightarrow> chunk cs' = (chunk cs)(handle \<mapsto> ck) \<Longrightarrow> chunk_invariant h cs'"
  by (simp add: chunk_invariant_def)

lemma chunk_invariant_same:
  "chunk_invariant h cs \<Longrightarrow> chunk cs' h = chunk cs h \<Longrightarrow> chunk_invariant h cs'"
  by (simp add: chunk_invariant_def)

text \<open>A handler for the data of one chunk leaves the other chunks as they are.\<close>

lemma writeChunk_other:
  "h \<noteq> handle \<Longrightarrow> chunk (snd (writeChunk d cs handle ver dat off lock)) h = chunk cs h"
  by (simp add: writeChunk_def Let_def split_beta split: option.splits)

lemma RPCCreateChunk_other:
  "h \<noteq> handle \<Longrightarrow> chunk (snd (RPCCreateChunk d cs handle)) h = chunk cs h"
  by (simp add: RPCCreateChunk_def Let_def split: option.splits disk_outcome.splits)

lemma RPCWriteChunk_assign_other:
  "h \<noteq> Handle i \<Longrightarrow> chunk (snd (RPCWriteChunk_assign c cs i off)) h = chunk cs h"
  by (simp add: RPCWriteChunk_assign_def deleteDownloadedData_def Let_def split_beta
      split: option.splits)

lemma RPCAppendChunk_assign_other:
  "h \<noteq> Handle i \<Longrightarrow> chunk (snd (RPCAppendChunk_assign c cs i)) h = chunk cs h"
  by (simp add: RPCAppendChunk_assign_def deleteDownloadedData_def Let_def split_beta
      split: option.splits)

lemma RPCApplyMutation_buffer_other:
  "h \<noteq> Handle i \<Longrightarrow> chunk (snd (RPCApplyMutation_buffer cs mt ver i off)) h = chunk cs h"
  by (simp add: RPCApplyMutation_buffer_def deleteDownloadedData_def split: option.splits)

lemma RPCApplyCopy_other:
  "h \<noteq> handle \<Longrightarrow> chunk (snd (RPCApplyCopy d cs handle dat ver)) h = chunk cs h"
  by (simp add: RPCApplyCopy_def writeChunk_other split: option.splits)

lemma doMutation_other:
  assumes "handle' \<noteq> handle"
  shows "chunk (snd (doMutation c ds cs handle)) handle' = chunk cs handle'"
proof -
  have "chunk (snd (doMutation_loop c ds cs handle)) handle' = chunk cs handle'"
  proof (rule doMutation_loop_invariant [where P = "\<lambda>s. chunk s handle' = chunk cs handle'"])
    show "chunk cs handle' = chunk cs handle'" by simp
  next
    fix s :: ChunkServer and ck v d
    assume "chunk s handle' = chunk cs handle'" and "chunk s handle = Some ck"
    then show "chunk (snd (apply_mutation c d s handle v)) handle' = chunk cs handle'"
      using apply_mutation_chunk(1) [of s handle ck c d v] assms by simp
  qed
  then show ?thesis
    using assms
    by (cases "doMutation_loop c ds cs handle")
       (auto simp: doMutation_def split: option.splits)
qed

lemma RPCApplyMutation_other:
  assumes "h \<noteq> Handle i"
  shows "chunk (snd (RPCApplyMutation c ds cs mt ver i off)) h = chunk cs h"
proof -
  obtain r cs1 where b: "RPCApplyMutation_buffer cs mt ver i off = (r, cs1)"
    by (cases "RPCApplyMutation_buffer cs mt ver i off")
  have "chunk cs1 h = chunk cs h"
    using RPCApplyMutation_buffer_other [OF assms, of cs mt ver off] b by simp
  then show ?thesis
    using b doMutation_other [OF assms, of c ds cs1]
    by (simp add: RPCApplyMutation_def split: option.splits)
qed

text \<open>The primary's steps on a chunk keep its invariant.\<close>

lemma RPCWriteChunk_assign_invariant:
  assumes "chunk_invariant h cs"
  shows "chunk_invariant h (snd (RPCWriteChunk_assign c cs i off))"
proof (cases "h = Handle i")
  case False
  then show ?thesis
    using chunk_invariant_same [OF assms RPCWriteChunk_assign_other] by simp
next
  case h: True
  show ?thesis
  proof (cases "dl_Get (dl cs) i")
    case None
    then show ?thesis using assms by (simp add: RPCWriteChunk_assign_def deleteDownloadedData_def)
  next
    case (Some dat)
    let ?cs0 = "cs\<lparr>dl := dl_Delete (dl cs) i\<rparr>"
    have d: "deleteDownloadedData cs i = (Inr dat, ?cs0)"
      using Some by (simp add: deleteDownloadedData_def)
    have a0: "chunk_invariant h ?cs0"
      using assms by (simp add: chunk_invariant_def)
    show ?thesis
    proof (cases "chunk cs (Handle i)")
      case None
      then show ?thesis using a0 d by (simp add: RPCWriteChunk_assign_def Let_def)
    next
      case ck: (Some ck)
      have p: "primary_invariant ck" using assms ck h by (simp add: chunk_invariant_def)
      let ?l = "max (length_ck ck) (off + int (length dat))"
      let ?ck' = "ck\<lparr>length_ck := ?l, newestVersion := newestVersion ck + 1,
              mutations := mutations_put (mutations ck) \<lparr>mtype = MutationWrite, mversion = newestVersion ck + 1, mdata = dat, moffset = off\<rparr>\<rparr>"
      show ?thesis
      proof (cases "off + int (length dat) > MaxChunkSize c")
        case True
        then show ?thesis using a0 d by (simp add: RPCWriteChunk_assign_def Let_def)
      next
        case False
        have "chunk (snd (RPCWriteChunk_assign c cs i off)) = (chunk ?cs0)(Handle i \<mapsto> ?ck')"
          using d ck False primary_invariant_fresh [OF p]
          by (simp add: RPCWriteChunk_assign_def Let_def nextVersion_def max_def)
        then show ?thesis
          using chunk_invariant_update [OF a0 primary_invariant_put [OF p]] by blast
      qed
    qed
  qed
qed

lemma RPCAppendChunk_assign_invariant:
  assumes "chunk_invariant h cs"
  shows "chunk_invariant h (snd (RPCAppendChunk_assign c cs i))"
proof (cases "h = Handle i")
  case False
  then show ?thesis
    using chunk_invariant_same [OF assms RPCAppendChunk_assign_other] by simp
next
  case h: True
  show ?thesis
  proof (cases "dl_Get (dl cs) i")
    case None
    then show ?thesis using assms by (simp add: RPCAppendChunk_assign_def deleteDownloadedData_def)
  next
    case (Some dat)
    let ?cs0 = "cs\<lparr>dl := dl_Delete (dl cs) i\<rparr>"
    have d: "deleteDownloadedData cs i = (Inr dat, ?cs0)"
      using Some by (simp add: deleteDownloadedData_def)
    have a0: "chunk_invariant h ?cs0"
      using assms by (simp add: chunk_invariant_def)
    show ?thesis
    proof (cases "chunk cs (Handle i)")
      case None
      then show ?thesis using a0 d by (simp add: RPCAppendChunk_assign_def Let_def)
    next
      case ck: (Some ck)
      have p: "primary_invariant ck" using assms ck h by (simp add: chunk_invariant_def)
      show ?thesis
      proof (cases "int (length dat) > MaxAppendSize c")
        case True
        then show ?thesis using a0 d by (simp add: RPCAppendChunk_assign_def Let_def)
      next
        case False
        have "\<exists>l mt. chunk (snd (RPCAppendChunk_assign c cs i)) = (chunk ?cs0)(Handle i \<mapsto>
                 ck\<lparr>length_ck := l, newestVersion := newestVersion ck + 1,
              mutations := mutations_put (mutations ck) \<lparr>mtype = mt, mversion = newestVersion ck + 1, mdata = dat, moffset = length_ck ck\<rparr>\<rparr>)"
          using d ck False primary_invariant_fresh [OF p]
          by (auto simp: RPCAppendChunk_assign_def Let_def nextVersion_def)
        then show ?thesis
          using chunk_invariant_update [OF a0 primary_invariant_put [OF p]] by blast
      qed
    qed
  qed
qed

lemma drained_primary_invariant:
  assumes d: "drained cs handle ck k s ck1" and p: "primary_invariant ck"
  shows "primary_invariant ck1"
proof -
  have img: "mversion ` set (mutations ck) = {version ck <.. newestVersion ck}"
    and le: "version ck \<le> newestVersion ck"
    using p by (simp_all add: primary_invariant_def)
  have v1: "version ck1 = version ck + int k" and n1: "newestVersion ck1 = newestVersion ck"
    and m1: "mutations ck1 = filter (\<lambda>m. \<not> (version ck < mversion m \<and> mversion m \<le> version ck + int k))
                            (mutations ck)"
    and got: "list_all (\<lambda>i. mutations_get (mutations ck) (version ck + 1 + int i) \<noteq> None) [0..<k]"
    using d by (simp_all add: drained_def)
  have vle: "version ck + int k \<le> newestVersion ck"
  proof (cases k)
    case 0
    then show ?thesis using le by simp
  next
    case (Suc j)
    then have "mutations_get (mutations ck) (version ck + 1 + int j) \<noteq> None"
      using got by (simp add: list_all_iff)
    then have "version ck + 1 + int j \<in> {version ck <.. newestVersion ck}"
      using img by (simp add: mutations_get_None)
    then show ?thesis using Suc by simp
  qed
  have "mversion ` set (mutations ck1) = {version ck + int k <.. newestVersion ck}"
  proof (intro set_eqI iffI)
    fix x assume "x \<in> mversion ` set (mutations ck1)"
    then obtain m where m: "m \<in> set (mutations ck)" "x = mversion m"
      "\<not> (version ck < mversion m \<and> mversion m \<le> version ck + int k)"
      using m1 by auto
    then have "mversion m \<in> {version ck <.. newestVersion ck}"
      using img by blast
    then show "x \<in> {version ck + int k <.. newestVersion ck}"
      using m by auto
  next
    fix x assume x: "x \<in> {version ck + int k <.. newestVersion ck}"
    then have "x \<in> mversion ` set (mutations ck)"
      using img by auto
    then obtain m where "m \<in> set (mutations ck)" "x = mversion m" by blast
    then show "x \<in> mversion ` set (mutations ck1)"
      using x m1 by auto
  qed
  then show ?thesis
    using vle v1 n1 by (simp add: primary_invariant_def)
qed

lemma primary_invariant_resync:
  assumes "primary_invariant ck" and "mutations ck = []"
  shows "primary_invariant (ck\<lparr>newestVersion := version ck\<rparr>)"
  using assms by (simp add: primary_invariant_def)

lemma doMutation_invariant:
  assumes a: "chunk_invariant h cs"
  shows "chunk_invariant h (snd (doMutation c ds cs handle))"
proof (cases "h = handle")
  case False
  then show ?thesis
    using chunk_invariant_same [OF a doMutation_other] by simp
next
  case h: True
  show ?thesis
  proof (cases "chunk cs handle")
    case None
    then have "doMutation c ds cs handle = (Some Panic, cs)"
      by (simp add: doMutation_def doMutation_loop.simps [of c ds cs handle])
    then show ?thesis using a by simp
  next
    case (Some ck)
    let ?r = "doMutation c ds cs handle"
    have p: "primary_invariant ck" using a Some h by (simp add: chunk_invariant_def)
    from doMutation_drained [OF Some, of c ds]
    obtain k ck1 where d: "drained cs handle ck k (snd (doMutation_loop c ds cs handle)) ck1"
      and e: "fst ?r \<noteq> None \<longrightarrow> fst ?r = Some ErrDisk \<and> snd ?r = snd (doMutation_loop c ds cs handle)"
      and n: "fst ?r = None \<longrightarrow>
                   mutations_get (mutations ck1) (version ck1 + 1) = None
                   \<and> chunk (snd ?r) handle
                       = Some (if mutations ck1 = [] then ck1\<lparr>newestVersion := version ck1\<rparr> else ck1)"
      by (elim exE conjE)
    have p1: "primary_invariant ck1" by (rule drained_primary_invariant [OF d p])
    have "\<exists>ck'. chunk (snd ?r) handle = Some ck' \<and> primary_invariant ck'"
    proof (cases "fst ?r")
      case None
      then show ?thesis using n p1 primary_invariant_resync [OF p1] by auto
    next
      case (Some err)
      then show ?thesis using e d p1 by (simp add: drained_def)
    qed
    then show ?thesis
      using h by (auto simp: chunk_invariant_def)
  qed
qed

lemma RPCCreateChunk_invariant:
  assumes "chunk_invariant h cs"
  shows "chunk_invariant h (snd (RPCCreateChunk d cs handle))"
proof (cases "chunk cs handle")
  case None
  have "primary_invariant \<lparr>length_ck = 0, version = 0, newestVersion = 0, mutations = []\<rparr>"
    by (simp add: primary_invariant_def)
  moreover have "chunk (snd (RPCCreateChunk d cs handle))
      = (chunk cs)(handle \<mapsto> \<lparr>length_ck = 0, version = 0, newestVersion = 0, mutations = []\<rparr>)"
    using None by (simp add: RPCCreateChunk_def Let_def split: disk_outcome.splits)
  ultimately show ?thesis
    using chunk_invariant_update [OF assms] by blast
next
  case (Some ck)
  then show ?thesis using assms by (simp add: RPCCreateChunk_def)
qed

lemma RPCWriteChunk_invariant:
  assumes "chunk_invariant h cs"
  shows "chunk_invariant h (snd (RPCWriteChunk c ds ca cs i off secs))"
proof -
  obtain r cs1 where a: "RPCWriteChunk_assign c cs i off = (r, cs1)"
    by (cases "RPCWriteChunk_assign c cs i off")
  have i1: "chunk_invariant h cs1"
    using RPCWriteChunk_assign_invariant [OF assms, of c i off] a by simp
  obtain e cs2 where m: "doMutation c ds cs1 (Handle i) = (e, cs2)"
    by (cases "doMutation c ds cs1 (Handle i)")
  have i2: "chunk_invariant h cs2"
    using doMutation_invariant [OF i1, of c ds "Handle i"] m by simp
  then have "chunk_invariant h
       (cs2\<lparr>pendingLeaseExtensions := insert (Handle i) (pendingLeaseExtensions cs2)\<rparr>)"
    by (simp add: chunk_invariant_def)
  then show ?thesis
    using a i1 m i2 by (auto simp: RPCWriteChunk_def split: sum.splits option.splits)
qed

lemma RPCAppendChunk_invariant:
  assumes "chunk_invariant h cs"
  shows "chunk_invariant h (snd (RPCAppendChunk c ds ca cs i secs))"
proof -
  obtain r cs1 where a: "RPCAppendChunk_assign c cs i = (r, cs1)"
    by (cases "RPCAppendChunk_assign c cs i")
  have i1: "chunk_invariant h cs1"
    using RPCAppendChunk_assign_invariant [OF assms, of c i] a by simp
  obtain e cs2 where m: "doMutation c ds cs1 (Handle i) = (e, cs2)"
    by (cases "doMutation c ds cs1 (Handle i)")
  have i2: "chunk_invariant h cs2"
    using doMutation_invariant [OF i1, of c ds "Handle i"] m by simp
  then have "chunk_invariant h
       (cs2\<lparr>pendingLeaseExtensions := insert (Handle i) (pendingLeaseExtensions cs2)\<rparr>)"
    by (simp add: chunk_invariant_def)
  then show ?thesis
    using a i1 m i2 by (auto simp: RPCAppendChunk_def split: sum.splits option.splits prod.splits)
qed

text \<open>A step that is not a secondary's step on the chunk \<open>h\<close> keeps the invariant of
  \<open>h\<close>: the secondary's steps on other chunks leave \<open>h\<close> as it is.\<close>

lemma step_invariant:
  assumes "\<not> secondary_on h x" and a: "chunk_invariant h cs"
  shows "chunk_invariant h (step c cs x)"
proof (cases x)
  case (OpCreateChunk d handle)
  then show ?thesis using RPCCreateChunk_invariant [OF a] by simp
next
  case (OpPushDataAndForward callAll stamp handle dat forwardTo)
  then show ?thesis using a
    by (auto simp: RPCPushDataAndForward_def Let_def chunk_invariant_def split: option.splits)
next
  case (OpForwardData dataID dat)
  then show ?thesis using a
    by (auto simp: RPCForwardData_def chunk_invariant_def split: option.splits)
next
  case (OpExpire dataID)
  then show ?thesis using a by (simp add: chunk_invariant_def)
next
  case (OpWriteChunk ds callAll dataID off secondaries)
  then show ?thesis using RPCWriteChunk_invariant [OF a] by simp
next
  case (OpAppendChunk ds callAll dataID secondaries)
  then show ?thesis using RPCAppendChunk_invariant [OF a] by simp
next
  case (OpApplyMutation ds mt ver dataID off)
  then have "h \<noteq> Handle dataID" using assms(1) by auto
  then show ?thesis
    using OpApplyMutation chunk_invariant_same [OF a RPCApplyMutation_other] by simp
next
  case (OpApplyCopy d handle dat ver)
  then have "h \<noteq> handle" using assms(1) by auto
  then show ?thesis
    using OpApplyCopy chunk_invariant_same [OF a RPCApplyCopy_other] by simp
next
  case (OpWriteChunk_assign dataID off)
  then show ?thesis using RPCWriteChunk_assign_invariant [OF a] by simp
next
  case (OpAppendChunk_assign dataID)
  then show ?thesis using RPCAppendChunk_assign_invariant [OF a] by simp
next
  case (OpApplyMutation_buffer mt ver dataID off)
  then have "h \<noteq> Handle dataID" using assms(1) by auto
  then show ?thesis
    using OpApplyMutation_buffer chunk_invariant_same [OF a RPCApplyMutation_buffer_other] by simp
next
  case (OpDoMutation ds handle)
  then show ?thesis using doMutation_invariant [OF a] by simp
qed

lemma run_invariant:
  "list_all (\<lambda>x. \<not> secondary_on h x) ops \<Longrightarrow> chunk_invariant h cs
     \<Longrightarrow> chunk_invariant h (run c cs ops)"
  unfolding run_def
  by (induction ops arbitrary: cs) (simp_all add: step_invariant)

lemma ex_mixed_run:
  "chunk (run ex_consts newChunkServer ex_mixed_ops) 1
     = Some \<lparr>length_ck = 5, version = 0, newestVersion = 2,
             mutations = [\<lparr>mtype = MutationAppend, mversion = 2, mdata = [4, 5], moffset = 3\<rparr>,
                          \<lparr>mtype = MutationWrite, mversion = 1, mdata = [1, 2, 3], moffset = 0\<rparr>]\<rparr>"
  "chunk (run ex_consts newChunkServer ex_mixed_ops) 2
     = Some \<lparr>length_ck = 0, version = 0, newestVersion = 0,
             mutations = [\<lparr>mtype = MutationWrite, mversion = 2, mdata = [9], moffset = 0\<rparr>]\<rparr>"
  by (simp_all add: ex_mixed_ops_def run_def newChunkServer_def RPCCreateChunk_def open_create_def
      RPCPushDataAndForward_def RPCForwardData_def ex_no_forward_def
      dl_New_def dl_Get_def dl_Set_def dl_Delete_def
      ex_id_def ex_id2_def ex_id3_def ex_consts_def
      RPCWriteChunk_assign_def RPCAppendChunk_assign_def deleteDownloadedData_def nextVersion_def
      RPCApplyMutation_def RPCApplyMutation_buffer_def doMutation_def doMutation_loop.simps
      mutations_get_def mutations_put_def mutations_delete_def Let_def)

subsection \<open>A drain of a single buffered mutation\<close>

lemma doMutation_single:
  assumes ck: "chunk cs handle = Some ck" and one: "mutations ck = [m]"
    and mv: "mversion m = version ck + 1"
  shows "fst (doMutation c ds cs handle)
           = write_error (next_outcome ds) (write_offset c m) (write_data m)"
    and "chunk (snd (doMutation c ds cs handle)) handle
           = Some ((applied c ck m)\<lparr>newestVersion :=
                     (if fst (doMutation c ds cs handle) = None then mversion m else newestVersion ck)\<rparr>)"
proof -
  obtain r s where a: "apply_mutation c (next_outcome ds) cs handle m = (r, s)"
    by (cases "apply_mutation c (next_outcome ds) cs handle m")
  have g: "mutations_get (mutations ck) (version ck + 1) = Some m"
    using one mv by (simp add: mutations_get_def)
  have r: "r = write_error (next_outcome ds) (write_offset c m) (write_data m)"
    using apply_mutation_chunk(3) [OF ck, of c "next_outcome ds" m] a by simp
  have s: "chunk s handle = Some (applied c ck m)"
    using apply_mutation_chunk(1) [OF ck, of c "next_outcome ds" m] a by simp
  have empty: "mutations (applied c ck m) = []"
    using one by (simp add: applied_def mutations_delete_def)
  have stop: "doMutation_loop c (tl ds) s handle = (None, s)"
    using s empty by (simp add: doMutation_loop.simps [of c "tl ds" s handle] mutations_get_def)
  have loop: "doMutation_loop c ds cs handle = (r, s)"
    using ck g a stop
    by (cases r) (simp_all add: doMutation_loop.simps [of c ds cs handle])
  have f: "fst (doMutation c ds cs handle) = r"
    using loop s by (cases r) (simp_all add: doMutation_def)
  have k: "chunk (snd (doMutation c ds cs handle)) handle
           = Some ((applied c ck m)\<lparr>newestVersion := (if r = None then mversion m else newestVersion ck)\<rparr>)"
    using loop s empty by (cases r) (simp_all add: doMutation_def applied_def)
  show "fst (doMutation c ds cs handle)
           = write_error (next_outcome ds) (write_offset c m) (write_data m)"
    unfolding f by (rule r)
  show "chunk (snd (doMutation c ds cs handle)) handle
           = Some ((applied c ck m)\<lparr>newestVersion :=
                     (if fst (doMutation c ds cs handle) = None then mversion m else newestVersion ck)\<rparr>)"
    unfolding f by (rule k)
qed

lemma doMutation_error:
  assumes "chunk cs handle = Some ck" and "fst (doMutation c ds cs handle) = Some e"
  shows "e = ErrDisk"
  using doMutation_drained [OF assms(1), of c ds] assms(2) by auto

lemma ex_full_chunk:
  "chunk ex_full 1 = Some \<lparr>length_ck = 50, version = 1, newestVersion = 1, mutations = []\<rparr>"
  by (simp add: ex_full_def run_def newChunkServer_def RPCCreateChunk_def open_create_def
      RPCPushDataAndForward_def ex_no_forward_def dl_New_def dl_Get_def dl_Set_def dl_Delete_def
      ex_id_def ex_id2_def ex_consts_def no_callAll_def
      RPCWriteChunk_def RPCWriteChunk_assign_def deleteDownloadedData_def nextVersion_def
      doMutation_def doMutation_loop.simps apply_mutation_def writeChunk_def disk_write_def split_beta delete_mutation_def
      next_outcome_def
      mutations_get_def mutations_put_def mutations_delete_def Let_def)

lemma ex_full_dl:
  "dl_Get (dl ex_full) ex_id2 = Some (replicate 16 65)"
  by (simp add: ex_full_def run_def newChunkServer_def RPCCreateChunk_def open_create_def
      RPCPushDataAndForward_def ex_no_forward_def dl_New_def dl_Get_def dl_Set_def
      ex_id_def ex_id2_def ex_consts_def RPCWriteChunk_dl dl_Delete_def Let_def)

lemma ex_created_staged_eq:
  "ex_created_staged dat = \<lparr>dl = [ex_id \<mapsto> dat],
      chunk = [1 \<mapsto> \<lparr>length_ck = 0, version = 0, newestVersion = 0, mutations = []\<rparr>],
      files = [1 \<mapsto> []], pendingLeaseExtensions = {}, writeLog = []\<rparr>"
  by (simp add: ex_created_staged_def run_def newChunkServer_def RPCCreateChunk_def open_create_def
      RPCForwardData_def dl_Get_def dl_Set_def)

section \<open>Properties of the master and the client\<close>

lemma nth_keys_inj:
  assumes "distinct keys"
  shows "inj_on (\<lambda>v. keys ! nat v) {v. 0 \<le> v \<and> v < int (length keys)}"
proof (rule inj_onI)
  fix x y assume x: "x \<in> {v. 0 \<le> v \<and> v < int (length keys)}" and y: "y \<in> {v. 0 \<le> v \<and> v < int (length keys)}"
    and eq: "keys ! nat x = keys ! nat y"
  have "nat x < length keys" "nat y < length keys" using x y by auto
  with eq assms have "nat x = nat y" by (simp add: nth_eq_iff_index_eq)
  with x y show "x = y" by auto
qed

lemma quot_floor:
  assumes "0 < b" and "0 \<le> n"
  shows "quot a b > n \<longleftrightarrow> a div b > n"
proof (cases "0 \<le> a")
  case True
  then show ?thesis using assms by (simp add: quot_def sgn_if)
next
  case False
  then have "a div b < 0" using assms by (simp add: div_neg_pos_less0)
  moreover have "0 \<le> (- a) div b" using False assms by (simp add: pos_imp_zdiv_nonneg_iff)
  then have "quot a b \<le> 0" using False assms by (simp add: quot_def sgn_if)
  ultimately show ?thesis using assms by simp
qed

lemma quot_nonneg: "0 \<le> a \<Longrightarrow> 0 < b \<Longrightarrow> quot a b = a div b"
  by (cases "a = 0") (simp_all add: quot_def sgn_if)

lemma GetChunkHandle_error:
  "GetChunkHandle net t path index = (Inl e, t1) \<Longrightarrow> \<exists>msg. e = RpcError msg"
  by (auto simp: GetChunkHandle_def split: sum.splits)

lemma Read_result_error:
  "Read_result pos err = Returns (k, Some e) \<Longrightarrow> e \<noteq> ErrReadOffsetExceeds"
  by (auto simp: Read_result_def split: option.splits error.splits if_splits)

lemma Read_loop_error:
  assumes "Read_loop c net t path off dat pos = Some y"
  shows "\<forall>k. fst y \<noteq> Returns (k, Some ErrReadOffsetExceeds)"
  using assms
proof (induction rule: Read_loop.raw_induct [rotated, consumes 1])
  case (1 Read_loop c net t path off dat pos y)
  show ?case
    using 1
    by (auto simp: Let_def split: prod.splits sum.splits if_splits option.splits go.splits
        dest: GetChunkHandle_error Read_result_error)
qed


lemma Write_loop_error:
  assumes "Write_loop c net t path off dat begin = Some y"
  shows "fst y \<noteq> Returns (Some ErrWriteOffsetExceeds)"
  using assms
proof (induction rule: Write_loop.raw_induct [rotated, consumes 1])
  case (1 Write_loop c net t path off dat bgn y)
  show ?case
    using 1
    by (auto simp: Let_def split: prod.splits sum.splits if_splits option.splits
        dest: GetChunkHandle_error)
qed

subsection \<open>The client's append\<close>










section \<open>The claims\<close>

text \<open>
  Claim C1. \<open>RPCAppendChunk\<close> on staged data of at most \<open>MaxAppendSize\<close> bytes for a
  chunk the server has (with no mutation buffered at the next version). If the chunk's
  length plus the data's length exceeds \<open>MaxChunkSize\<close>, the locked part elects the kind
  \<open>MutationPad\<close>, sets the length to \<open>MaxChunkSize\<close> and buffers the pad; every reply
  the handler returns carries \<open>AppendExceedChunkSize\<close> and the length before the call as
  its offset, and the secondaries were sent the kind \<open>MutationPad\<close>. Otherwise the kind
  is \<open>MutationAppend\<close>, the length grows by the data's length, and the reply carries no
  code and the length before the call. On a quiescent chunk with a working disk and
  secondaries that accept, the handler returns that reply and leaves the chunk at the
  new length.
\<close>

theorem RPCAppendChunk_pad_or_append:
  assumes staged: "dl_Get (dl cs) i = Some dat"
    and size: "int (length dat) \<le> MaxAppendSize c"
    and ck: "chunk cs (Handle i) = Some ck"
    and fresh: "mutations_get (mutations ck) (newestVersion ck + 1) = None"
  shows "(length_ck ck + int (length dat) > MaxChunkSize c \<longrightarrow>
            (\<exists>cs1 ck1. RPCAppendChunk_assign c cs i
                 = (Inr (MutationPad, newestVersion ck + 1,
                         \<lparr>Offset = length_ck ck, ErrorCode = AppendExceedChunkSize\<rparr>), cs1)
               \<and> chunk cs1 (Handle i) = Some ck1 \<and> length_ck ck1 = MaxChunkSize c
               \<and> mutations_get (mutations ck1) (newestVersion ck + 1)
                   = Some \<lparr>mtype = MutationPad, mversion = newestVersion ck + 1, mdata = dat,
                           moffset = length_ck ck\<rparr>)
          \<and> (\<forall>reply. fst (RPCAppendChunk c ds ca cs i secs) = Inr reply \<longrightarrow>
                 reply = \<lparr>Offset = length_ck ck, ErrorCode = AppendExceedChunkSize\<rparr>
                 \<and> ca secs MutationPad (newestVersion ck + 1) i (length_ck ck) = None))
       \<and> (\<not> length_ck ck + int (length dat) > MaxChunkSize c \<longrightarrow>
            (\<exists>cs1 ck1. RPCAppendChunk_assign c cs i
                 = (Inr (MutationAppend, newestVersion ck + 1,
                         \<lparr>Offset = length_ck ck, ErrorCode = NoCode\<rparr>), cs1)
               \<and> chunk cs1 (Handle i) = Some ck1 \<and> length_ck ck1 = length_ck ck + int (length dat)
               \<and> mutations_get (mutations ck1) (newestVersion ck + 1)
                   = Some \<lparr>mtype = MutationAppend, mversion = newestVersion ck + 1, mdata = dat,
                           moffset = length_ck ck\<rparr>)
          \<and> (\<forall>reply. fst (RPCAppendChunk c ds ca cs i secs) = Inr reply \<longrightarrow>
                 reply = \<lparr>Offset = length_ck ck, ErrorCode = NoCode\<rparr>
                 \<and> ca secs MutationAppend (newestVersion ck + 1) i (length_ck ck) = None))
       \<and> (mutations ck = [] \<and> version ck = newestVersion ck \<and> next_outcome ds = DiskOk
            \<and> 0 \<le> length_ck ck \<and> 0 < MaxChunkSize c
            \<and> ca secs (elected_kind c ck dat) (newestVersion ck + 1) i (length_ck ck) = None \<longrightarrow>
            (\<exists>reply cs' ck'. RPCAppendChunk c ds ca cs i secs = (Inr reply, cs')
               \<and> Offset reply = length_ck ck
               \<and> chunk cs' (Handle i) = Some ck'
               \<and> length_ck ck' = (if length_ck ck + int (length dat) > MaxChunkSize c
                                   then MaxChunkSize c else length_ck ck + int (length dat))
               \<and> version ck' = newestVersion ck + 1 \<and> newestVersion ck' = newestVersion ck + 1
               \<and> mutations ck' = []))"
proof -
  let ?h = "Handle i"
  let ?over = "length_ck ck + int (length dat) > MaxChunkSize c"
  let ?kind = "elected_kind c ck dat"
  let ?len = "if ?over then MaxChunkSize c else length_ck ck + int (length dat)"
  let ?code = "if ?over then AppendExceedChunkSize else NoCode"
  let ?ver = "newestVersion ck + 1"
  let ?m = "\<lparr>mtype = ?kind, mversion = ?ver, mdata = dat, moffset = length_ck ck\<rparr>"
  let ?reply = "\<lparr>Offset = length_ck ck, ErrorCode = ?code\<rparr>"
  let ?ck1 = "ck\<lparr>length_ck := ?len, newestVersion := ?ver,
                   mutations := mutations_put (mutations ck) ?m\<rparr>"
  let ?cs1 = "cs\<lparr>dl := dl_Delete (dl cs) i, chunk := (chunk cs)(?h \<mapsto> ?ck1)\<rparr>"
  have d: "deleteDownloadedData cs i = (Inr dat, cs\<lparr>dl := dl_Delete (dl cs) i\<rparr>)"
    using staged by (simp add: deleteDownloadedData_def)
  have assign: "RPCAppendChunk_assign c cs i = (Inr (?kind, ?ver, ?reply), ?cs1)"
    using d size ck fresh
    by (simp add: RPCAppendChunk_assign_def Let_def nextVersion_def elected_kind_def)
  have c1: "chunk ?cs1 ?h = Some ?ck1" by simp
  have got: "mutations_get (mutations ?ck1) ?ver = Some ?m"
    by (simp add: mutations_get_def mutations_put_def)
  have reply: "reply = ?reply \<and> ca secs ?kind ?ver i (length_ck ck) = None"
    if "fst (RPCAppendChunk c ds ca cs i secs) = Inr reply" for reply
    using that assign
    by (auto simp: RPCAppendChunk_def split: prod.splits option.splits)
  have quiet: "\<exists>reply cs' ck'. RPCAppendChunk c ds ca cs i secs = (Inr reply, cs')
               \<and> Offset reply = length_ck ck
               \<and> chunk cs' ?h = Some ck' \<and> length_ck ck' = ?len
               \<and> version ck' = ?ver \<and> newestVersion ck' = ?ver \<and> mutations ck' = []"
    if q: "mutations ck = []" "version ck = newestVersion ck" "next_outcome ds = DiskOk"
      "0 \<le> length_ck ck" "0 < MaxChunkSize c" "ca secs ?kind ?ver i (length_ck ck) = None"
  proof -
    have one: "mutations ?ck1 = [?m]"
      using q(1) by (simp add: mutations_put_def mutations_delete_def)
    have mv: "mversion ?m = version ?ck1 + 1"
      using q(2) by simp
    obtain e cs2 where dm: "doMutation c ds ?cs1 ?h = (e, cs2)"
      by (cases "doMutation c ds ?cs1 ?h")
    have e: "e = None"
      using doMutation_single(1) [OF c1 one mv, of c ds] dm q(3,4,5)
      by (simp add: write_error_def write_offset_def write_data_def elected_kind_def)
    have c2: "chunk cs2 ?h = Some ((applied c ?ck1 ?m)\<lparr>newestVersion := ?ver\<rparr>)"
      using doMutation_single(2) [OF c1 one mv, of c ds] dm e by simp
    have "RPCAppendChunk c ds ca cs i secs
            = (Inr ?reply, cs2\<lparr>pendingLeaseExtensions := insert ?h (pendingLeaseExtensions cs2)\<rparr>)"
      using assign dm e q(6) by (simp add: RPCAppendChunk_def)
    moreover have "length_ck ((applied c ?ck1 ?m)\<lparr>newestVersion := ?ver\<rparr>) = ?len"
      by (simp add: applied_def elected_kind_def)
    moreover have "mutations ((applied c ?ck1 ?m)\<lparr>newestVersion := ?ver\<rparr>) = []"
      using one by (simp add: applied_def mutations_delete_def)
    ultimately show ?thesis
      using c2 by (simp add: applied_def)
  qed
  have pad: "(\<exists>cs1 ck1. RPCAppendChunk_assign c cs i
                 = (Inr (MutationPad, ?ver, \<lparr>Offset = length_ck ck, ErrorCode = AppendExceedChunkSize\<rparr>), cs1)
               \<and> chunk cs1 ?h = Some ck1 \<and> length_ck ck1 = MaxChunkSize c
               \<and> mutations_get (mutations ck1) ?ver
                   = Some \<lparr>mtype = MutationPad, mversion = ?ver, mdata = dat, moffset = length_ck ck\<rparr>)"
    if "?over"
    using that assign c1 got
    by (intro exI [of _ ?cs1] exI [of _ ?ck1]) (simp add: elected_kind_def)
  have app: "(\<exists>cs1 ck1. RPCAppendChunk_assign c cs i
                 = (Inr (MutationAppend, ?ver, \<lparr>Offset = length_ck ck, ErrorCode = NoCode\<rparr>), cs1)
               \<and> chunk cs1 ?h = Some ck1 \<and> length_ck ck1 = length_ck ck + int (length dat)
               \<and> mutations_get (mutations ck1) ?ver
                   = Some \<lparr>mtype = MutationAppend, mversion = ?ver, mdata = dat, moffset = length_ck ck\<rparr>)"
    if "\<not> ?over"
    using that assign c1 got
    by (intro exI [of _ ?cs1] exI [of _ ?ck1]) (simp add: elected_kind_def)
  show ?thesis
  proof (intro conjI impI allI)
    assume "?over"
    then show "\<exists>cs1 ck1. RPCAppendChunk_assign c cs i
                 = (Inr (MutationPad, ?ver, \<lparr>Offset = length_ck ck, ErrorCode = AppendExceedChunkSize\<rparr>), cs1)
               \<and> chunk cs1 ?h = Some ck1 \<and> length_ck ck1 = MaxChunkSize c
               \<and> mutations_get (mutations ck1) ?ver
                   = Some \<lparr>mtype = MutationPad, mversion = ?ver, mdata = dat, moffset = length_ck ck\<rparr>"
      by (rule pad)
  next
    fix reply assume "?over" and r: "fst (RPCAppendChunk c ds ca cs i secs) = Inr reply"
    then show "reply = \<lparr>Offset = length_ck ck, ErrorCode = AppendExceedChunkSize\<rparr>"
      and "ca secs MutationPad ?ver i (length_ck ck) = None"
      using reply [OF r] by (simp_all add: elected_kind_def)
  next
    assume "\<not> ?over"
    then show "\<exists>cs1 ck1. RPCAppendChunk_assign c cs i
                 = (Inr (MutationAppend, ?ver, \<lparr>Offset = length_ck ck, ErrorCode = NoCode\<rparr>), cs1)
               \<and> chunk cs1 ?h = Some ck1 \<and> length_ck ck1 = length_ck ck + int (length dat)
               \<and> mutations_get (mutations ck1) ?ver
                   = Some \<lparr>mtype = MutationAppend, mversion = ?ver, mdata = dat, moffset = length_ck ck\<rparr>"
      by (rule app)
  next
    fix reply assume "\<not> ?over" and r: "fst (RPCAppendChunk c ds ca cs i secs) = Inr reply"
    then show "reply = \<lparr>Offset = length_ck ck, ErrorCode = NoCode\<rparr>"
      and "ca secs MutationAppend ?ver i (length_ck ck) = None"
      using reply [OF r] by (simp_all add: elected_kind_def)
  next
    assume "mutations ck = [] \<and> version ck = newestVersion ck \<and> next_outcome ds = DiskOk
            \<and> 0 \<le> length_ck ck \<and> 0 < MaxChunkSize c
            \<and> ca secs ?kind ?ver i (length_ck ck) = None"
    then show "\<exists>reply cs' ck'. RPCAppendChunk c ds ca cs i secs = (Inr reply, cs')
               \<and> Offset reply = length_ck ck
               \<and> chunk cs' ?h = Some ck' \<and> length_ck ck' = ?len
               \<and> version ck' = ?ver \<and> newestVersion ck' = ?ver \<and> mutations ck' = []"
      using quiet by blast
  qed
qed

theorem RPCAppendChunk_pad_or_append_witness:
  "dl_Get (dl ex_full) ex_id2 = Some (replicate 16 65)
   \<and> int (length (replicate 16 (65 :: byte))) \<le> MaxAppendSize ex_consts
   \<and> chunk ex_full (Handle ex_id2) = Some \<lparr>length_ck = 50, version = 1, newestVersion = 1, mutations = []\<rparr>
   \<and> mutations_get [] (1 + 1) = None
   \<and> (50 :: int) + int (length (replicate 16 (65 :: byte))) > MaxChunkSize ex_consts
   \<and> next_outcome [] = DiskOk
   \<and> (\<exists>cs' ck'. RPCAppendChunk ex_consts [] no_callAll ex_full ex_id2 []
          = (Inr \<lparr>Offset = 50, ErrorCode = AppendExceedChunkSize\<rparr>, cs')
        \<and> chunk cs' 1 = Some ck' \<and> length_ck ck' = 64 \<and> version ck' = 2)"
proof -
  let ?ck = "\<lparr>length_ck = 50, version = 1, newestVersion = 1, mutations = []\<rparr>"
  have h: "dl_Get (dl ex_full) ex_id2 = Some (replicate 16 65)"
    "int (length (replicate 16 (65 :: byte))) \<le> MaxAppendSize ex_consts"
    "chunk ex_full (Handle ex_id2) = Some ?ck"
    "mutations_get (mutations ?ck) (newestVersion ?ck + 1) = None"
    using ex_full_dl ex_full_chunk by (simp_all add: ex_consts_def ex_id2_def mutations_get_def)
  have q: "mutations ?ck = [] \<and> version ?ck = newestVersion ?ck \<and> next_outcome [] = DiskOk
            \<and> 0 \<le> length_ck ?ck \<and> 0 < MaxChunkSize ex_consts
            \<and> no_callAll [] (elected_kind ex_consts ?ck (replicate 16 65)) (newestVersion ?ck + 1) ex_id2 (length_ck ?ck) = None"
    by (simp add: next_outcome_def ex_consts_def no_callAll_def)
  have over: "length_ck ?ck + int (length (replicate 16 (65 :: byte))) > MaxChunkSize ex_consts"
    by (simp add: ex_consts_def)
  note t = RPCAppendChunk_pad_or_append [OF h, of "[]" no_callAll "[]"]
  from t q obtain reply cs' ck' where r: "RPCAppendChunk ex_consts [] no_callAll ex_full ex_id2 [] = (Inr reply, cs')"
    and c: "chunk cs' (Handle ex_id2) = Some ck'"
      "length_ck ck' = (if length_ck ?ck + int (length (replicate 16 (65 :: byte))) > MaxChunkSize ex_consts
                                   then MaxChunkSize ex_consts else length_ck ?ck + int (length (replicate 16 (65 :: byte))))"
      "version ck' = newestVersion ?ck + 1"
    by blast
  have "reply = \<lparr>Offset = length_ck ?ck, ErrorCode = AppendExceedChunkSize\<rparr>"
    using t over r by simp
  then have "RPCAppendChunk ex_consts [] no_callAll ex_full ex_id2 []
          = (Inr \<lparr>Offset = 50, ErrorCode = AppendExceedChunkSize\<rparr>, cs')
        \<and> chunk cs' 1 = Some ck' \<and> length_ck ck' = 64 \<and> version ck' = 2"
    using r c by (simp add: ex_consts_def ex_id2_def)
  then have "\<exists>cs' ck'. RPCAppendChunk ex_consts [] no_callAll ex_full ex_id2 []
          = (Inr \<lparr>Offset = 50, ErrorCode = AppendExceedChunkSize\<rparr>, cs')
        \<and> chunk cs' 1 = Some ck' \<and> length_ck ck' = 64 \<and> version ck' = 2"
    by blast
  then show ?thesis
    using h(1,2) ex_full_chunk by (simp add: ex_consts_def ex_id2_def mutations_get_def next_outcome_def)
qed

text \<open>
  Claim C2 (corrected). As stated, for every reachable state of every replica, the claim
  is false: a secondary that receives the mutation of version 2 before that of version
  1 buffers it and leaves \<open>version = newestVersion = 0\<close> with a buffer that is not
  empty, and \<open>RPCApplyCopy\<close> sets \<open>version\<close> above \<open>newestVersion\<close>.
\<close>

theorem version_invariant_counterexample:
  "chunk (run ex_consts newChunkServer
            [OpCreateChunk DiskOk 1, OpForwardData ex_id [1, 2, 3],
             OpApplyMutation [] MutationWrite 2 ex_id 0]) 1
     = Some \<lparr>length_ck = 0, version = 0, newestVersion = 0, mutations = [ex_late]\<rparr>
   \<and> \<not> version_invariant \<lparr>length_ck = 0, version = 0, newestVersion = 0, mutations = [ex_late]\<rparr>
   \<and> chunk (run ex_consts newChunkServer
            [OpCreateChunk DiskOk 1, OpApplyCopy DiskOk 1 [1, 2, 3] 5]) 1
     = Some \<lparr>length_ck = 3, version = 5, newestVersion = 0, mutations = []\<rparr>
   \<and> \<not> version_invariant \<lparr>length_ck = 3, version = 5, newestVersion = 0, mutations = []\<rparr>"
proof -
  have "chunk (run ex_consts newChunkServer
            [OpCreateChunk DiskOk 1, OpForwardData ex_id [1, 2, 3],
             OpApplyMutation [] MutationWrite 2 ex_id 0]) 1
     = Some \<lparr>length_ck = 0, version = 0, newestVersion = 0, mutations = [ex_late]\<rparr>"
    by (simp add: run_def newChunkServer_def RPCCreateChunk_def open_create_def
      RPCForwardData_def dl_Get_def dl_Set_def dl_Delete_def ex_id_def ex_late_def
      RPCApplyMutation_def RPCApplyMutation_buffer_def deleteDownloadedData_def
      doMutation_def doMutation_loop.simps
      mutations_get_def mutations_put_def mutations_delete_def)
  moreover have "chunk (run ex_consts newChunkServer
            [OpCreateChunk DiskOk 1, OpApplyCopy DiskOk 1 [1, 2, 3] 5]) 1
     = Some \<lparr>length_ck = 3, version = 5, newestVersion = 0, mutations = []\<rparr>"
    by (simp add: run_def newChunkServer_def RPCCreateChunk_def open_create_def
      RPCApplyCopy_def writeChunk_def disk_write_def split_beta WriteAt_def)
  ultimately show ?thesis
    by (simp add: version_invariant_def)
qed

text \<open>
  Claim C2, as amended. Take a chunk and any run of a replica in which the replica
  takes no secondary's step on this chunk: no \<open>RPCApplyMutation\<close> for a mutation of
  this chunk, as a whole or its buffering part alone, and no \<open>RPCApplyCopy\<close> for it.
  The run may hold every other step in any order, whatever the disk does: chunk
  creation, data push and forward, buffer expiry, \<open>RPCWriteChunk\<close> and
  \<open>RPCAppendChunk\<close>, their locked parts and their drains interleaved, and the
  secondary's steps on the other chunks of the replica. Then the chunk has
  \<open>version \<le> newestVersion\<close>, and its buffer is empty if and only if
  \<open>version = newestVersion\<close>.
\<close>

theorem primary_chunk_version_invariant:
  assumes "list_all (\<lambda>x. \<not> secondary_on handle x) ops"
    and "chunk (run c newChunkServer ops) handle = Some ck"
  shows "version_invariant ck"
proof -
  have "chunk_invariant handle newChunkServer"
    by (simp add: chunk_invariant_def newChunkServer_def)
  then have "chunk_invariant handle (run c newChunkServer ops)"
    using assms(1) by (rule run_invariant [rotated])
  then have "primary_invariant ck"
    using assms(2) by (simp add: chunk_invariant_def)
  then show ?thesis by (rule primary_invariant_version_invariant)
qed

theorem primary_chunk_version_invariant_witness:
  "list_all (\<lambda>x. \<not> secondary_on 1 x) ex_mixed_ops
   \<and> \<not> list_all (\<lambda>x. \<not> secondary_on 2 x) ex_mixed_ops
   \<and> chunk (run ex_consts newChunkServer ex_mixed_ops) 1
     = Some \<lparr>length_ck = 5, version = 0, newestVersion = 2,
             mutations = [\<lparr>mtype = MutationAppend, mversion = 2, mdata = [4, 5], moffset = 3\<rparr>,
                          \<lparr>mtype = MutationWrite, mversion = 1, mdata = [1, 2, 3], moffset = 0\<rparr>]\<rparr>
   \<and> version_invariant \<lparr>length_ck = 5, version = 0, newestVersion = 2,
             mutations = [\<lparr>mtype = MutationAppend, mversion = 2, mdata = [4, 5], moffset = 3\<rparr>,
                          \<lparr>mtype = MutationWrite, mversion = 1, mdata = [1, 2, 3], moffset = 0\<rparr>]\<rparr>"
proof -
  have p: "list_all (\<lambda>x. \<not> secondary_on 1 x) ex_mixed_ops"
    and q: "\<not> list_all (\<lambda>x. \<not> secondary_on 2 x) ex_mixed_ops"
    by (simp_all add: ex_mixed_ops_def ex_id_def ex_id2_def ex_id3_def)
  show ?thesis
    using p q ex_mixed_run(1) primary_chunk_version_invariant [OF p ex_mixed_run(1)]
    by simp
qed
text \<open>
  Claim C3 (corrected). As stated the claim is false in its last part: a drain whose
  write fails returns at once, and when that write was the last buffered mutation the
  buffer is empty afterwards while \<open>newestVersion\<close> is left as it was. On a secondary
  that holds the mutation of version 1 and whose disk fails, the drain ends with an
  empty buffer, \<open>version = 1\<close> and \<open>newestVersion = 0\<close>.
\<close>

theorem doMutation_error_exit_no_resync:
  "chunk ex_single 1
     = Some \<lparr>length_ck = 0, version = 0, newestVersion = 0, mutations = [ex_m1]\<rparr>
   \<and> fst (doMutation ex_consts [OpenFails] ex_single 1) = Some ErrDisk
   \<and> chunk (snd (doMutation ex_consts [OpenFails] ex_single 1)) 1
       = Some \<lparr>length_ck = 3, version = 1, newestVersion = 0, mutations = []\<rparr>
   \<and> mutations \<lparr>length_ck = 3, version = 1, newestVersion = 0, mutations = []\<rparr> = []
   \<and> newestVersion \<lparr>length_ck = 3, version = 1, newestVersion = 0, mutations = []\<rparr>
       \<noteq> version \<lparr>length_ck = 3, version = 1, newestVersion = 0, mutations = []\<rparr>"
  by (simp add: ex_single_eq doMutation_def doMutation_loop.simps apply_mutation_def
      writeChunk_def disk_write_def split_beta delete_mutation_def next_outcome_def
      mutations_get_def mutations_delete_def ex_m1_def ex_consts_def)

text \<open>
  Claim C3, as amended. A drain (\<open>doMutation\<close>) of a chunk at version \<open>v\<close> applies a
  list \<open>ms\<close> of mutations taken from the chunk's buffer, whose versions are
  \<open>v + 1, v + 2, \<dots>\<close> in this order: each is applied when its version is the chunk's
  version plus one. The chunk's file afterwards is the file before with the writes of
  \<open>ms\<close> made one after the other in this order, the lines \<open>writeChunk\<close> logs are
  these versions in this order, the chunk's version has advanced by the number of
  mutations applied, and exactly these mutations have left the buffer. No write but
  the last one fails. If the last write fails, the drain returns its error and leaves
  \<open>newestVersion\<close> as it was. Otherwise the drain returns without error, the buffer
  holds no mutation of the next version, and \<open>newestVersion\<close> is set to \<open>version\<close> if
  the buffer is empty (and left as it was if it is not).
\<close>

theorem doMutation_ascending_order:
  assumes ck: "chunk cs handle = Some ck"
  shows "\<exists>ms ck'. chunk (snd (doMutation c ds cs handle)) handle = Some ck'
           \<and> ascending_from (version ck) ms
           \<and> list_all (\<lambda>m. mutations_get (mutations ck) (mversion m) = Some m) ms
           \<and> files (snd (doMutation c ds cs handle)) = disk_writes c ds handle ms (files cs)
           \<and> writeLog (snd (doMutation c ds cs handle))
               = writeLog cs @ map (\<lambda>m. (handle, mversion m)) ms
           \<and> version ck' = version ck + int (length ms)
           \<and> mutations ck' = filter (\<lambda>m. \<not> (version ck < mversion m \<and> mversion m \<le> version ck'))
                                  (mutations ck)
           \<and> first_failure c ds (butlast ms) = None
           \<and> fst (doMutation c ds cs handle) = first_failure c ds ms
           \<and> (fst (doMutation c ds cs handle) = None \<longrightarrow>
                 mutations_get (mutations ck') (version ck' + 1) = None
                 \<and> newestVersion ck' = (if mutations ck' = [] then version ck' else newestVersion ck))
           \<and> (fst (doMutation c ds cs handle) \<noteq> None \<longrightarrow> newestVersion ck' = newestVersion ck)"
proof -
  let ?r = "doMutation c ds cs handle"
  let ?l = "doMutation_loop c ds cs handle"
  from doMutation_drained [OF ck, of c ds]
  obtain k ck1 where d: "drained cs handle ck k (snd ?l) ck1"
    and w: "writeLog (snd ?r) = writeLog (snd ?l)"
    and f: "fst ?r = fst ?l"
    and e: "fst ?r \<noteq> None \<longrightarrow> fst ?r = Some ErrDisk \<and> snd ?r = snd ?l"
    and n: "fst ?r = None \<longrightarrow>
                 mutations_get (mutations ck1) (version ck1 + 1) = None
                 \<and> chunk (snd ?r) handle
                     = Some (if mutations ck1 = [] then ck1\<lparr>newestVersion := version ck1\<rparr> else ck1)"
    by (elim exE conjE)
  from doMutation_loop_writes [OF ck, of c ds]
  obtain ms where asc: "ascending_from (version ck) ms"
    and buf: "list_all (\<lambda>m. mutations_get (mutations ck) (mversion m) = Some m) ms"
    and fs: "files (snd ?l) = disk_writes c ds handle ms (files cs)"
    and wl: "writeLog (snd ?l) = writeLog cs @ map (\<lambda>m. (handle, mversion m)) ms"
    and bl: "first_failure c ds (butlast ms) = None"
    and ff: "fst ?l = first_failure c ds ms"
    by (elim exE conjE)
  have "map (\<lambda>i. (handle, version ck + 1 + int i)) [0..<k] = map (\<lambda>m. (handle, mversion m)) ms"
    using d wl by (simp add: drained_def)
  then have "length (map (\<lambda>i. (handle, version ck + 1 + int i)) [0..<k])
               = length (map (\<lambda>m. (handle, mversion m)) ms)"
    by (rule arg_cong)
  then have k: "k = length ms" by simp
  have c1: "chunk (snd ?l) handle = Some ck1"
    and v1: "version ck1 = version ck + int (length ms)"
    and m1: "mutations ck1 = filter (\<lambda>m. \<not> (version ck < mversion m \<and> mversion m \<le> version ck1))
                                  (mutations ck)"
    and n1: "newestVersion ck1 = newestVersion ck"
    using d k by (simp_all add: drained_def)
  note common = asc buf fs [folded doMutation_files] wl [folded w] bl ff [folded f]
  show ?thesis
  proof (cases "fst ?r")
    case None
    let ?ck' = "if mutations ck1 = [] then ck1\<lparr>newestVersion := version ck1\<rparr> else ck1"
    have a: "chunk (snd ?r) handle = Some ?ck'"
      and b: "mutations_get (mutations ck1) (version ck1 + 1) = None"
      using n None by simp_all
    have v: "version ?ck' = version ck1" and m: "mutations ?ck' = mutations ck1"
      and nv: "newestVersion ?ck' = (if mutations ck1 = [] then version ck1 else newestVersion ck)"
      using n1 by simp_all
    show ?thesis
      apply (rule exI [of _ ms], rule exI [of _ ?ck'])
      unfolding v m nv
      using a b None common v1 m1 by simp
  next
    case (Some err)
    then have "chunk (snd ?r) handle = Some ck1"
      using e c1 by simp
    then show ?thesis
      using Some common v1 m1 n1
      by (intro exI [of _ ms] exI [of _ ck1]) simp
  qed
qed

theorem doMutation_ascending_order_witness:
  "chunk ex_buffered 1
     = Some \<lparr>length_ck = 0, version = 0, newestVersion = 0, mutations = [ex_m1, ex_m2]\<rparr>
   \<and> files ex_buffered = [1 \<mapsto> []]
   \<and> doMutation ex_consts [] ex_buffered 1
       = (None, \<lparr>dl = Map.empty,
            chunk = [1 \<mapsto> \<lparr>length_ck = 5, version = 2, newestVersion = 2, mutations = []\<rparr>],
            files = [1 \<mapsto> [1, 2, 3, 4, 5]], pendingLeaseExtensions = {},
            writeLog = [(1, 1), (1, 2)]\<rparr>)
   \<and> (\<exists>ms. ascending_from 0 ms
          \<and> list_all (\<lambda>m. mutations_get [ex_m1, ex_m2] (mversion m) = Some m) ms
          \<and> [1 \<mapsto> [1, 2, 3, 4, 5]] = disk_writes ex_consts [] 1 ms [1 \<mapsto> []]
          \<and> [(1, 1), (1, 2)] = map (\<lambda>m. (1, mversion m)) ms
          \<and> 2 = int (length ms)
          \<and> first_failure ex_consts [] ms = None)"
proof -
  have c: "chunk ex_buffered 1
     = Some \<lparr>length_ck = 0, version = 0, newestVersion = 0, mutations = [ex_m1, ex_m2]\<rparr>"
    and f: "files ex_buffered = [1 \<mapsto> []]" and l: "writeLog ex_buffered = []"
    by (simp_all add: ex_buffered_eq)
  show ?thesis
    using c f l doMutation_ascending_order [OF c, of ex_consts "[]"]
    by (auto simp: ex_drain)
qed


text \<open>
  Claim C5. A download-buffer entry is consumed exactly once on commit:
  \<open>deleteDownloadedData\<close> returns the staged bytes and removes the entry; the commit
  handlers (\<open>RPCWriteChunk\<close>, \<open>RPCAppendChunk\<close>, \<open>RPCApplyMutation\<close>) fail with the
  data-not-found error and change nothing when the DataID is absent, and whatever
  they return the entry is gone afterwards, so that a second commit of the same DataID
  fails with the data-not-found error; \<open>RPCForwardData\<close> for a DataID that is
  present fails with the duplicate-data error and leaves the state, and so the stored
  bytes, as they were.
\<close>

theorem download_buffer_consumed_once:
  "(dl_Get (dl cs) i = Some d \<longrightarrow>
      deleteDownloadedData cs i = (Inr d, cs\<lparr>dl := dl_Delete (dl cs) i\<rparr>)
      \<and> RPCForwardData cs i d' = (Some ErrDuplicateData, cs))
   \<and> (dl_Get (dl cs) i = None \<longrightarrow>
      deleteDownloadedData cs i = (Inl ErrDataNotFound, cs)
      \<and> RPCWriteChunk c ds ca cs i off secs = (Some ErrDataNotFound, cs)
      \<and> RPCAppendChunk c ds ca cs i secs = (Inl ErrDataNotFound, cs)
      \<and> RPCApplyMutation c ds cs mt ver i off = (Some ErrDataNotFound, cs))
   \<and> dl_Get (dl (snd (deleteDownloadedData cs i))) i = None
   \<and> dl_Get (dl (snd (RPCWriteChunk c ds ca cs i off secs))) i = None
   \<and> dl_Get (dl (snd (RPCAppendChunk c ds ca cs i secs))) i = None
   \<and> dl_Get (dl (snd (RPCApplyMutation c ds cs mt ver i off))) i = None
   \<and> fst (RPCWriteChunk c ds' ca' (snd (RPCWriteChunk c ds ca cs i off secs)) i off' secs')
       = Some ErrDataNotFound
   \<and> fst (RPCAppendChunk c ds' ca' (snd (RPCAppendChunk c ds ca cs i secs)) i secs')
       = Inl ErrDataNotFound
   \<and> fst (RPCApplyMutation c ds' (snd (RPCApplyMutation c ds cs mt ver i off)) mt' ver' i off')
       = Some ErrDataNotFound"
proof -
  have absent: "dl_Get (dl cs) i = None \<Longrightarrow> deleteDownloadedData cs i = (Inl ErrDataNotFound, cs)"
    by (simp add: deleteDownloadedData_def)
  have "dl_Get (dl cs) i = Some d \<Longrightarrow>
      deleteDownloadedData cs i = (Inr d, cs\<lparr>dl := dl_Delete (dl cs) i\<rparr>)
      \<and> RPCForwardData cs i d' = (Some ErrDuplicateData, cs)"
    by (simp add: deleteDownloadedData_def RPCForwardData_def)
  moreover have "dl_Get (dl cs) i = None \<Longrightarrow>
      RPCWriteChunk c ds ca cs i off secs = (Some ErrDataNotFound, cs)
      \<and> RPCAppendChunk c ds ca cs i secs = (Inl ErrDataNotFound, cs)
      \<and> RPCApplyMutation c ds cs mt ver i off = (Some ErrDataNotFound, cs)"
    by (simp add: absent RPCWriteChunk_def RPCWriteChunk_assign_def RPCAppendChunk_def
        RPCAppendChunk_assign_def RPCApplyMutation_def RPCApplyMutation_buffer_def)
  moreover have gone: "dl_Get (dl_Delete (dl cs) i) i = None"
    by (simp add: dl_Get_def dl_Delete_def)
  moreover have "fst (RPCWriteChunk c ds' ca' s i off' secs') = Some ErrDataNotFound"
    "fst (RPCAppendChunk c ds' ca' s i secs') = Inl ErrDataNotFound"
    "fst (RPCApplyMutation c ds' s mt' ver' i off') = Some ErrDataNotFound"
    if "dl_Get (dl s) i = None" for s
    using that
    by (simp_all add: deleteDownloadedData_def RPCWriteChunk_def RPCWriteChunk_assign_def
        RPCAppendChunk_def RPCAppendChunk_assign_def RPCApplyMutation_def RPCApplyMutation_buffer_def)
  ultimately show ?thesis
    by (simp add: absent deleteDownloadedData_dl RPCWriteChunk_dl RPCAppendChunk_dl RPCApplyMutation_dl)
qed


theorem download_buffer_consumed_once_witness:
  "dl_Get (dl ex_staged) ex_id = Some [1, 2, 3]
   \<and> deleteDownloadedData ex_staged ex_id = (Inr [1, 2, 3], ex_staged\<lparr>dl := dl_Delete (dl ex_staged) ex_id\<rparr>)
   \<and> RPCForwardData ex_staged ex_id [9] = (Some ErrDuplicateData, ex_staged)
   \<and> dl_Get (dl newChunkServer) ex_id = None
   \<and> RPCWriteChunk ex_consts [] no_callAll newChunkServer ex_id 0 [] = (Some ErrDataNotFound, newChunkServer)
   \<and> dl_Get (dl (snd (RPCApplyMutation ex_consts [] ex_staged MutationWrite 1 ex_id 0))) ex_id = None
   \<and> fst (RPCApplyMutation ex_consts []
             (snd (RPCApplyMutation ex_consts [] ex_staged MutationWrite 1 ex_id 0)) MutationWrite 1 ex_id 0)
       = Some ErrDataNotFound"
proof -
  have p: "dl_Get (dl ex_staged) ex_id = Some [1, 2, 3]"
    by (simp add: ex_staged_def RPCForwardData_def newChunkServer_def dl_Get_def dl_Set_def)
  have a: "dl_Get (dl newChunkServer) ex_id = None"
    by (simp add: newChunkServer_def dl_Get_def)
  show ?thesis
    using p a
      download_buffer_consumed_once [where cs = ex_staged and i = ex_id and d = "[1, 2, 3]"
        and d' = "[9]" and c = ex_consts and ds = "[]" and ca = no_callAll and off = 0 and secs = "[]"
        and mt = MutationWrite and ver = 1 and ds' = "[]" and mt' = MutationWrite and ver' = 1
        and off' = 0]
      download_buffer_consumed_once [where cs = newChunkServer and i = ex_id and d = "[]"
        and d' = "[]" and c = ex_consts and ds = "[]" and ca = no_callAll and off = 0 and secs = "[]"
        and mt = MutationWrite and ver = 1]
    by simp
qed

text \<open>
  Claim C6. A write with \<open>offset + len(data) = MaxChunkSize + 1\<close> is rejected with an
  error by the client's \<open>WriteChunk\<close>, before any call, and by the primary's
  \<open>RPCWriteChunk\<close>, once it has consumed the staged data. A write with
  \<open>offset + len(data) = MaxChunkSize\<close> is rejected by neither size check: the client's
  \<open>WriteChunk\<close> returns no error when its three calls succeed, and the primary's
  \<open>RPCWriteChunk\<close> returns no error on a quiescent chunk, at an offset \<open>\<ge> 0\<close>, with a
  working disk and secondaries that accept.
\<close>

theorem write_size_boundary:
  "(int (length dat) + off = MaxChunkSize c + 1 \<longrightarrow>
      WriteChunk c net t handle off dat = (Some ErrClientWriteSize, t)
      \<and> (dl_Get (dl cs) i = Some dat \<longrightarrow>
           RPCWriteChunk c ds ca cs i off secs
             = (Some ErrWriteTooLarge, cs\<lparr>dl := dl_Delete (dl cs) i\<rparr>)))
   \<and> (int (length dat) + off = MaxChunkSize c \<longrightarrow>
      fst (WriteChunk c net t handle off dat) \<noteq> Some ErrClientWriteSize
      \<and> (\<forall>p ss di. callGetPrimaryAndSecondaries net t handle = Inr (p, ss)
              \<and> callPushDataAndForward net (t + 1) p handle dat ss = Inr di
              \<and> callWriteChunk net (t + 2) p di off ss = None \<longrightarrow>
              WriteChunk c net t handle off dat = (None, t + 3))
      \<and> (dl_Get (dl cs) i = Some dat \<longrightarrow>
           fst (RPCWriteChunk c ds ca cs i off secs) \<noteq> Some ErrWriteTooLarge
           \<and> (\<forall>ck. chunk cs (Handle i) = Some ck \<and> mutations ck = []
                  \<and> version ck = newestVersion ck \<and> next_outcome ds = DiskOk \<and> 0 \<le> off
                  \<and> ca secs MutationWrite (newestVersion ck + 1) i off = None \<longrightarrow>
                  fst (RPCWriteChunk c ds ca cs i off secs) = None
                  \<and> (\<exists>ck'. chunk (snd (RPCWriteChunk c ds ca cs i off secs)) (Handle i) = Some ck'
                        \<and> length_ck ck' = max (length_ck ck) (MaxChunkSize c)
                        \<and> version ck' = newestVersion ck + 1
                        \<and> newestVersion ck' = newestVersion ck + 1 \<and> mutations ck' = []))))"
proof -
  let ?h = "Handle i"
  have client_reject: "WriteChunk c net t handle off dat = (Some ErrClientWriteSize, t)"
    if "int (length dat) + off = MaxChunkSize c + 1"
    using that by (simp add: WriteChunk_def)
  have client_pass: "fst (WriteChunk c net t handle off dat) \<noteq> Some ErrClientWriteSize"
    if "int (length dat) + off = MaxChunkSize c"
    using that by (auto simp: WriteChunk_def split: sum.splits prod.splits option.splits)
  have client_ok: "WriteChunk c net t handle off dat = (None, t + 3)"
    if "int (length dat) + off = MaxChunkSize c"
      "callGetPrimaryAndSecondaries net t handle = Inr (p, ss)"
      "callPushDataAndForward net (t + 1) p handle dat ss = Inr di"
      "callWriteChunk net (t + 2) p di off ss = None" for p ss di
    using that by (simp add: WriteChunk_def)
  have d: "deleteDownloadedData cs i = (Inr dat, cs\<lparr>dl := dl_Delete (dl cs) i\<rparr>)"
    if "dl_Get (dl cs) i = Some dat"
    using that by (simp add: deleteDownloadedData_def)
  have primary_reject: "RPCWriteChunk c ds ca cs i off secs
             = (Some ErrWriteTooLarge, cs\<lparr>dl := dl_Delete (dl cs) i\<rparr>)"
    if "dl_Get (dl cs) i = Some dat" "int (length dat) + off = MaxChunkSize c + 1"
    using d [OF that(1)] that(2)
    by (simp add: RPCWriteChunk_def RPCWriteChunk_assign_def Let_def)
  have primary_pass: "fst (RPCWriteChunk c ds ca cs i off secs) \<noteq> Some ErrWriteTooLarge"
    if s: "dl_Get (dl cs) i = Some dat" and eq: "int (length dat) + off = MaxChunkSize c"
  proof (cases "chunk cs ?h")
    case None
    then show ?thesis using d [OF s] eq
      by (simp add: RPCWriteChunk_def RPCWriteChunk_assign_def Let_def)
  next
    case (Some ck)
    obtain r cs1 where a: "RPCWriteChunk_assign c cs i off = (r, cs1)"
      by (cases "RPCWriteChunk_assign c cs i off")
    have r: "r \<noteq> Inl ErrWriteTooLarge" and c1: "\<exists>ck1. chunk cs1 ?h = Some ck1"
      using a d [OF s] eq Some
      by (auto simp: RPCWriteChunk_assign_def Let_def nextVersion_def split: if_splits)
    then obtain ck1 where ck1: "chunk cs1 ?h = Some ck1" by blast
    have "e = ErrDisk" if "fst (doMutation c ds cs1 ?h) = Some e" for e
      using doMutation_error [OF ck1 that] .
    then show ?thesis
      using a r
      by (cases "doMutation c ds cs1 ?h")
         (auto simp: RPCWriteChunk_def split: sum.splits option.splits)
  qed
  have primary_ok: "fst (RPCWriteChunk c ds ca cs i off secs) = None
                  \<and> (\<exists>ck'. chunk (snd (RPCWriteChunk c ds ca cs i off secs)) ?h = Some ck'
                        \<and> length_ck ck' = max (length_ck ck) (MaxChunkSize c)
                        \<and> version ck' = newestVersion ck + 1
                        \<and> newestVersion ck' = newestVersion ck + 1 \<and> mutations ck' = [])"
    if s: "dl_Get (dl cs) i = Some dat" and eq: "int (length dat) + off = MaxChunkSize c"
      and q: "chunk cs ?h = Some ck" "mutations ck = []" "version ck = newestVersion ck"
        "next_outcome ds = DiskOk" "0 \<le> off" "ca secs MutationWrite (newestVersion ck + 1) i off = None"
    for ck
  proof -
    let ?ver = "newestVersion ck + 1"
    let ?m = "\<lparr>mtype = MutationWrite, mversion = ?ver, mdata = dat, moffset = off\<rparr>"
    let ?ck1 = "ck\<lparr>length_ck := max (length_ck ck) (MaxChunkSize c), newestVersion := ?ver,
                     mutations := [?m]\<rparr>"
    let ?cs1 = "cs\<lparr>dl := dl_Delete (dl cs) i, chunk := (chunk cs)(?h \<mapsto> ?ck1)\<rparr>"
    have assign: "RPCWriteChunk_assign c cs i off = (Inr ?ver, ?cs1)"
      using d [OF s] eq q(1,2)
      by (simp add: RPCWriteChunk_assign_def Let_def nextVersion_def mutations_get_def
          mutations_put_def mutations_delete_def max_def add.commute)
    have c1: "chunk ?cs1 ?h = Some ?ck1" by simp
    have one: "mutations ?ck1 = [?m]" by simp
    have mv: "mversion ?m = version ?ck1 + 1" using q(3) by simp
    obtain e cs2 where dm: "doMutation c ds ?cs1 ?h = (e, cs2)"
      by (cases "doMutation c ds ?cs1 ?h")
    have e: "e = None"
      using doMutation_single(1) [OF c1 one mv, of c ds] dm q(4,5)
      by (simp add: write_error_def write_offset_def write_data_def)
    have c2: "chunk cs2 ?h = Some ((applied c ?ck1 ?m)\<lparr>newestVersion := ?ver\<rparr>)"
      using doMutation_single(2) [OF c1 one mv, of c ds] dm e by simp
    have "RPCWriteChunk c ds ca cs i off secs
            = (None, cs2\<lparr>pendingLeaseExtensions := insert ?h (pendingLeaseExtensions cs2)\<rparr>)"
      using assign dm e q(6) by (simp add: RPCWriteChunk_def)
    moreover have "length_ck ((applied c ?ck1 ?m)\<lparr>newestVersion := ?ver\<rparr>) = max (length_ck ck) (MaxChunkSize c)"
      using eq by (simp add: applied_def max_def)
    ultimately show ?thesis
      using c2 by (simp add: applied_def mutations_delete_def)
  qed
  show ?thesis
    using client_reject client_pass client_ok primary_reject primary_pass primary_ok
    by blast
qed

theorem write_size_boundary_witness:
  "int (length [1, 2, 3, 4, 5 :: byte]) + 60 = MaxChunkSize ex_consts + 1
   \<and> WriteChunk ex_consts ex_net_ok 0 1 60 [1, 2, 3, 4, 5] = (Some ErrClientWriteSize, 0)
   \<and> dl_Get (dl (ex_created_staged [1, 2, 3, 4, 5])) ex_id = Some [1, 2, 3, 4, 5]
   \<and> fst (RPCWriteChunk ex_consts [] no_callAll (ex_created_staged [1, 2, 3, 4, 5]) ex_id 60 [])
       = Some ErrWriteTooLarge
   \<and> int (length [1, 2, 3, 4 :: byte]) + 60 = MaxChunkSize ex_consts
   \<and> WriteChunk ex_consts ex_net_ok 0 1 60 [1, 2, 3, 4] = (None, 3)
   \<and> dl_Get (dl (ex_created_staged [1, 2, 3, 4])) ex_id = Some [1, 2, 3, 4]
   \<and> fst (RPCWriteChunk ex_consts [] no_callAll (ex_created_staged [1, 2, 3, 4]) ex_id 60 []) = None"
proof -
  have five: "int (length [1, 2, 3, 4, 5 :: byte]) + 60 = MaxChunkSize ex_consts + 1"
    and four: "int (length [1, 2, 3, 4 :: byte]) + 60 = MaxChunkSize ex_consts"
    by (simp_all add: ex_consts_def)
  have s5: "dl_Get (dl (ex_created_staged [1, 2, 3, 4, 5])) ex_id = Some [1, 2, 3, 4, 5]"
    and s4: "dl_Get (dl (ex_created_staged [1, 2, 3, 4])) ex_id = Some [1, 2, 3, 4]"
    by (simp_all add: ex_created_staged_eq dl_Get_def)
  have calls: "callGetPrimaryAndSecondaries ex_net_ok 0 1 = Inr (''a'', [''b'', ''c''])
      \<and> callPushDataAndForward ex_net_ok (0 + 1) ''a'' 1 [1, 2, 3, 4] [''b'', ''c''] = Inr \<lparr>Handle = 1, TimeStamp = 1\<rparr>
      \<and> callWriteChunk ex_net_ok (0 + 2) ''a'' \<lparr>Handle = 1, TimeStamp = 1\<rparr> 60 [''b'', ''c''] = None"
    by (simp add: ex_net_ok_def)
  let ?ck = "\<lparr>length_ck = 0, version = 0, newestVersion = 0, mutations = []\<rparr>"
  have q: "chunk (ex_created_staged [1, 2, 3, 4]) (Handle ex_id) = Some ?ck \<and> mutations ?ck = []
                  \<and> version ?ck = newestVersion ?ck \<and> next_outcome [] = DiskOk \<and> (0::int) \<le> 60
                  \<and> no_callAll [] MutationWrite (newestVersion ?ck + 1) ex_id 60 = None"
    by (simp add: ex_created_staged_eq ex_id_def next_outcome_def no_callAll_def)
  note t5 = write_size_boundary [of "[1, 2, 3, 4, 5]" 60 ex_consts ex_net_ok 0 1
      "ex_created_staged [1, 2, 3, 4, 5]" ex_id "[]" no_callAll "[]"]
  note t4 = write_size_boundary [of "[1, 2, 3, 4]" 60 ex_consts ex_net_ok 0 1
      "ex_created_staged [1, 2, 3, 4]" ex_id "[]" no_callAll "[]"]
  have "WriteChunk ex_consts ex_net_ok 0 1 60 [1, 2, 3, 4, 5] = (Some ErrClientWriteSize, 0)"
    "fst (RPCWriteChunk ex_consts [] no_callAll (ex_created_staged [1, 2, 3, 4, 5]) ex_id 60 [])
       = Some ErrWriteTooLarge"
    using t5 five s5 by simp_all
  moreover have "WriteChunk ex_consts ex_net_ok 0 1 60 [1, 2, 3, 4] = (None, 3)"
    using t4 four calls by (simp del: length_Cons)
  moreover have "fst (RPCWriteChunk ex_consts [] no_callAll (ex_created_staged [1, 2, 3, 4]) ex_id 60 []) = None"
    using t4 four s4 q by blast
  ultimately show ?thesis
    using five four s5 s4 by simp
qed

text \<open>
  Claim C7. Let \<open>keys\<close> be the addresses as the loop over the map of registered
  servers yields them (every key once) and \<open>perm\<close> the permutation of
  \<open>0, \<dots>, n - 1\<close> that \<^verbatim>\<open>rand.Perm\<close> returns. Then \<open>ChooseServers\<close> fails with the
  not-enough-servers error exactly when \<open>num\<close> exceeds the number of registered
  servers, and otherwise (for a count \<open>num \<ge> 0\<close>) returns \<open>num\<close> pairwise distinct
  registered addresses. (A negative \<open>num\<close> makes the slice expression panic.)
\<close>

theorem ChooseServers_distinct:
  assumes keys: "distinct keys" "set keys = dom (servers csm)"
    and perm: "distinct perm" "set perm = {0..<int (length keys)}"
  shows "(ChooseServers keys perm csm num = Inl ErrNotEnoughServers
            \<longleftrightarrow> num > int (card (dom (servers csm))))
       \<and> (0 \<le> num \<and> num \<le> int (card (dom (servers csm))) \<longrightarrow>
            (\<exists>ret. ChooseServers keys perm csm num = Inr ret \<and> int (length ret) = num
                   \<and> distinct ret \<and> set ret \<subseteq> dom (servers csm)))"
proof -
  have card: "card (dom (servers csm)) = length keys"
    using keys distinct_card [of keys] by simp
  have "card (set perm) = length keys"
    using perm(2) by simp
  then have lperm: "length perm = length keys"
    using perm(1) distinct_card [of perm] by simp
  have inrange: "list_all (\<lambda>v. 0 \<le> v \<and> v < int (length keys)) (take k perm)" for k
    using perm(2) by (auto simp: list_all_iff dest!: in_set_takeD)
  have not_enough: "ChooseServers keys perm csm num = Inl ErrNotEnoughServers
            \<longleftrightarrow> num > int (card (dom (servers csm)))"
    by (auto simp: ChooseServers_def Sample_def Let_def card inrange split: sum.splits if_splits)
  have chosen: "\<exists>ret. ChooseServers keys perm csm num = Inr ret \<and> int (length ret) = num
                   \<and> distinct ret \<and> set ret \<subseteq> dom (servers csm)"
    if n: "0 \<le> num" "num \<le> int (card (dom (servers csm)))"
  proof -
    let ?ret = "map (\<lambda>v. keys ! nat v) (take (nat num) perm)"
    have r: "ChooseServers keys perm csm num = Inr ?ret"
      using n by (simp add: ChooseServers_def Sample_def Let_def card inrange)
    have len: "int (length ?ret) = num"
      using n lperm card by simp
    have sub: "set (take (nat num) perm) \<subseteq> {v. 0 \<le> v \<and> v < int (length keys)}"
      using perm(2) by (auto dest!: in_set_takeD)
    have "distinct ?ret"
      using perm(1) inj_on_subset [OF nth_keys_inj [OF keys(1)] sub]
      by (simp add: distinct_map)
    moreover have "set ?ret \<subseteq> dom (servers csm)"
      using sub keys(2) [symmetric] by (auto simp: nth_mem)
    ultimately show ?thesis using r len by blast
  qed
  show ?thesis using not_enough chosen by blast
qed

theorem ChooseServers_distinct_witness:
  "distinct [''c'', ''a'', ''b''] \<and> set [''c'', ''a'', ''b''] = dom (servers ex_csm)
   \<and> distinct [2, 0, 1 :: int] \<and> set [2, 0, 1 :: int] = {0..<int (length [''c'', ''a'', ''b''])}
   \<and> (0::int) \<le> 2 \<and> 2 \<le> int (card (dom (servers ex_csm)))
   \<and> ChooseServers [''c'', ''a'', ''b''] [2, 0, 1] ex_csm 2 = Inr [''b'', ''c'']
   \<and> (\<exists>ret. ChooseServers [''c'', ''a'', ''b''] [2, 0, 1] ex_csm 2 = Inr ret \<and> int (length ret) = 2
             \<and> distinct ret \<and> set ret \<subseteq> dom (servers ex_csm))
   \<and> ChooseServers [''c'', ''a'', ''b''] [2, 0, 1] ex_csm 4 = Inl ErrNotEnoughServers"
proof -
  have k: "distinct [''c'', ''a'', ''b'']" "set [''c'', ''a'', ''b''] = dom (servers ex_csm)"
    by (auto simp: ex_csm_def)
  have p: "distinct [2, 0, 1 :: int]" "set [2, 0, 1 :: int] = {0..<int (length [''c'', ''a'', ''b''])}"
    by auto
  have c: "card (dom (servers ex_csm)) = 3"
    using distinct_card [OF k(1)] unfolding k(2) by simp
  have "ChooseServers [''c'', ''a'', ''b''] [2, 0, 1] ex_csm 2 = Inr [''b'', ''c'']"
    by (simp add: ChooseServers_def Sample_def c)
  moreover have "ChooseServers [''c'', ''a'', ''b''] [2, 0, 1] ex_csm 4 = Inl ErrNotEnoughServers"
    using ChooseServers_distinct [OF k p, of 4] c by simp
  moreover have "\<exists>ret. ChooseServers [''c'', ''a'', ''b''] [2, 0, 1] ex_csm 2 = Inr ret \<and> int (length ret) = 2
             \<and> distinct ret \<and> set ret \<subseteq> dom (servers ex_csm)"
    using ChooseServers_distinct [OF k p, of 2] c by simp
  ultimately show ?thesis using k p c by simp
qed





text \<open>
  Claim C10. When \<^verbatim>\<open>Master.RPCGetFileInfo\<close> answers with a chunk count \<open>n \<ge> 0\<close>,
  \<open>Read\<close> and \<open>Write\<close> return their offset-exceeds error, after that one call, when
  \<open>floor (offset / MaxChunkSize) > n\<close>, and in no other case return it at all. An
  offset whose chunk index equals \<open>n\<close> passes the check and goes on to resolve the
  chunk: the next call is \<^verbatim>\<open>Master.RPCGetChunkHandle\<close> for index \<open>n\<close>, whose error,
  if it fails, is what \<open>Read\<close> and \<open>Write\<close> return. (The source divides with Go's
  truncating division, which agrees with the floor on this comparison.)
\<close>

theorem offset_check_Read_Write:
  assumes info: "callGetFileInfo net t path = Inr n" and n: "0 \<le> n" and m: "0 < MaxChunkSize c"
  shows "(off div MaxChunkSize c > n \<longrightarrow>
            Read c net t path off dat = Some (Returns (- 1, Some ErrReadOffsetExceeds), t + 1)
          \<and> Write c net t path off dat = Some (Returns (Some ErrWriteOffsetExceeds), t + 1))
       \<and> (off div MaxChunkSize c \<le> n \<longrightarrow>
            (\<forall>k t'. Read c net t path off dat \<noteq> Some (Returns (k, Some ErrReadOffsetExceeds), t'))
          \<and> (\<forall>t'. Write c net t path off dat \<noteq> Some (Returns (Some ErrWriteOffsetExceeds), t')))
       \<and> (off div MaxChunkSize c = n \<longrightarrow>
            (\<forall>msg. callGetChunkHandle net (t + 1) path n = Inl msg \<longrightarrow>
               Read c net t path off dat = Some (Returns (0, Some (RpcError msg)), t + 2)
             \<and> Write c net t path off dat = Some (Returns (Some (RpcError msg)), t + 2)))"
proof -
  have q: "quot off (MaxChunkSize c) > n \<longleftrightarrow> off div MaxChunkSize c > n"
    by (rule quot_floor [OF m n])
  have rejected: "Read c net t path off dat = Some (Returns (- 1, Some ErrReadOffsetExceeds), t + 1)
          \<and> Write c net t path off dat = Some (Returns (Some ErrWriteOffsetExceeds), t + 1)"
    if "off div MaxChunkSize c > n"
    using that q info by (simp add: Read_def Write_def)
  have passed: "Read c net t path off dat = Read_loop c net (t + 1) path off dat 0
          \<and> Write c net t path off dat = Write_loop c net (t + 1) path off dat 0"
    if "off div MaxChunkSize c \<le> n"
    using that q info by (simp add: Read_def Write_def)
  have never: "(\<forall>k t'. Read c net t path off dat \<noteq> Some (Returns (k, Some ErrReadOffsetExceeds), t'))
          \<and> (\<forall>t'. Write c net t path off dat \<noteq> Some (Returns (Some ErrWriteOffsetExceeds), t'))"
    if le: "off div MaxChunkSize c \<le> n"
  proof (intro conjI allI notI)
    fix k t' assume "Read c net t path off dat = Some (Returns (k, Some ErrReadOffsetExceeds), t')"
    then have "Read_loop c net (t + 1) path off dat 0 = Some (Returns (k, Some ErrReadOffsetExceeds), t')"
      using passed [OF le] by simp
    from Read_loop_error [OF this] show False by simp
  next
    fix t' assume "Write c net t path off dat = Some (Returns (Some ErrWriteOffsetExceeds), t')"
    then have "Write_loop c net (t + 1) path off dat 0 = Some (Returns (Some ErrWriteOffsetExceeds), t')"
      using passed [OF le] by simp
    from Write_loop_error [OF this] show False by simp
  qed
  have resolve: "Read c net t path off dat = Some (Returns (0, Some (RpcError msg)), t + 2)
             \<and> Write c net t path off dat = Some (Returns (Some (RpcError msg)), t + 2)"
    if eq: "off div MaxChunkSize c = n" and h: "callGetChunkHandle net (t + 1) path n = Inl msg" for msg
  proof -
    have "0 \<le> off div MaxChunkSize c" using eq n by simp
    then have "0 \<le> off" using m by (simp add: pos_imp_zdiv_nonneg_iff)
    then have "quot off (MaxChunkSize c) = n" using eq m by (simp add: quot_nonneg)
    then have g: "GetChunkHandle net (t + 1) path (quot off (MaxChunkSize c)) = (Inl (RpcError msg), t + 2)"
      using h by (simp add: GetChunkHandle_def)
    have "Read_loop c net (t + 1) path off dat 0 = Some (Returns (0, Some (RpcError msg)), t + 2)"
      using g by (subst Read_loop.simps) simp
    moreover have "Write_loop c net (t + 1) path off dat 0 = Some (Returns (Some (RpcError msg)), t + 2)"
      using g by (subst Write_loop.simps) simp
    ultimately show ?thesis using passed eq by simp
  qed
  show ?thesis using rejected never resolve by blast
qed

theorem offset_check_Read_Write_witness:
  "callGetFileInfo ex_net 0 ''/a'' = Inr 1 \<and> (0::int) \<le> 1 \<and> 0 < MaxChunkSize ex_consts
   \<and> 128 div MaxChunkSize ex_consts > 1
   \<and> Read ex_consts ex_net 0 ''/a'' 128 [0, 0] = Some (Returns (- 1, Some ErrReadOffsetExceeds), 1)
   \<and> Write ex_consts ex_net 0 ''/a'' 128 [0, 0] = Some (Returns (Some ErrWriteOffsetExceeds), 1)
   \<and> 127 div MaxChunkSize ex_consts = 1
   \<and> callGetChunkHandle ex_net 1 ''/a'' 1 = Inl ''no servers''
   \<and> Read ex_consts ex_net 0 ''/a'' 127 [0, 0] = Some (Returns (0, Some (RpcError ''no servers'')), 2)
   \<and> Write ex_consts ex_net 0 ''/a'' 127 [0, 0] = Some (Returns (Some (RpcError ''no servers'')), 2)"
proof -
  have h: "callGetFileInfo ex_net 0 ''/a'' = Inr 1" "(0::int) \<le> 1" "0 < MaxChunkSize ex_consts"
    by (simp_all add: ex_net_def ex_consts_def)
  have a: "128 div MaxChunkSize ex_consts > 1" "127 div MaxChunkSize ex_consts = 1"
    "callGetChunkHandle ex_net 1 ''/a'' 1 = Inl ''no servers''"
    by (simp_all add: ex_net_def ex_consts_def)
  show ?thesis
    using h a offset_check_Read_Write [OF h, of 128 "[0, 0]"] offset_check_Read_Write [OF h, of 127 "[0, 0]"]
    by simp
qed

end
